theory Spec2Isabelle
  imports Main
begin

section \<open>JavaScript values used by \<open>jhuLocations.js\<close>\<close>

text \<open>
  A CSV cell is a string; a read past the end of a row (\<open>loc[i]\<close>) is \<open>undefined\<close>;
  the source writes \<open>null\<close> itself (\<open>loc[2] || null\<close>). The three are kept apart,
  because the source compares with \<open>!== null\<close>, which \<open>undefined\<close> passes.
  A string is a list of 8-bit code units, read as the code points U+0000 to U+00FF.
\<close>

datatype jsval = Undefined | Null | Str string

text \<open>
  What a count can be: a Number, or the \<open>null\<close> that \<open>JSON.parse\<close> yields where the
  serialised collection had NaN. The Numbers that \<open>parseInt\<close> and \<open>+=\<close> produce from
  counts are NaN, the two infinities and the doubles whose value is an integer (\<open>Num\<close>
  holds that value); \<open>-0\<close> is not told apart from \<open>0\<close>.
\<close>

datatype jsnum = NaN | Num int | PosInf | NegInf | NullNum

datatype error = TypeError | Failure string

text \<open>\<open>ToString\<close> of the language standard, on the three kinds of value.\<close>

fun ToString :: "jsval \<Rightarrow> string" where
  "ToString Undefined = ''undefined''"
| "ToString Null = ''null''"
| "ToString (Str s) = s"

text \<open>\<open>ToBoolean\<close>: \<open>undefined\<close>, \<open>null\<close> and the empty string are falsy.\<close>

fun truthy :: "jsval \<Rightarrow> bool" where
  "truthy Undefined = False"
| "truthy Null = False"
| "truthy (Str s) = (s \<noteq> [])"

text \<open>The expression \<open>v || null\<close>.\<close>

definition or_null :: "jsval \<Rightarrow> jsval" where
  "or_null v = (if truthy v then v else Null)"

subsection \<open>Doubles\<close>

text \<open>The number of binary digits of a natural number.\<close>

fun bit_length :: "nat \<Rightarrow> nat" where
  "bit_length n = (if n = 0 then 0 else Suc (bit_length (n div 2)))"

text \<open>
  The double nearest to an integer, ties to the even significand: exact up to \<open>2^53\<close>
  in magnitude; beyond, the integer keeps its 53 leading binary digits, rounded, and
  is an infinity when the rounded magnitude reaches \<open>2^1024\<close>.
\<close>

definition double_of_int :: "int \<Rightarrow> jsnum" where
  "double_of_int n =
     (if \<bar>n\<bar> \<le> 9007199254740992 then Num n
      else
        let m = nat \<bar>n\<bar>;
            sh = bit_length m - 53;
            q = m div 2 ^ sh;
            r = m mod 2 ^ sh;
            half = 2 ^ (sh - 1);
            q' = (if half < r \<or> (r = half \<and> odd q) then q + 1 else q);
            v = q' * 2 ^ sh
        in if 2 ^ 1024 \<le> v then (if n < 0 then NegInf else PosInf)
           else Num (sgn n * int v))"

text \<open>\<open>ToNumber\<close> on a count: \<open>null\<close> is \<open>0\<close>.\<close>

fun ToNumber :: "jsnum \<Rightarrow> jsnum" where
  "ToNumber NullNum = Num 0"
| "ToNumber v = v"

text \<open>
  The sum of two Numbers: NaN absorbs, opposite infinities give NaN, an infinity
  absorbs the rest, and the sum of two integers is rounded to a double.
\<close>

fun add_numbers :: "jsnum \<Rightarrow> jsnum \<Rightarrow> jsnum" where
  "add_numbers (Num a) (Num b) = double_of_int (a + b)"
| "add_numbers NaN y = NaN"
| "add_numbers x NaN = NaN"
| "add_numbers PosInf NegInf = NaN"
| "add_numbers NegInf PosInf = NaN"
| "add_numbers PosInf y = PosInf"
| "add_numbers x PosInf = PosInf"
| "add_numbers NegInf y = NegInf"
| "add_numbers x NegInf = NegInf"
| "add_numbers x y = NaN"

text \<open>The operator \<open>+\<close> on two counts, as \<open>+=\<close> applies it.\<close>

definition jsadd :: "jsnum \<Rightarrow> jsnum \<Rightarrow> jsnum" where
  "jsadd x y = add_numbers (ToNumber x) (ToNumber y)"

subsection \<open>\<open>String.prototype.toLowerCase\<close>\<close>

definition lower_char :: "char \<Rightarrow> char" where
  "lower_char c =
     (let n = (of_char c :: nat) in
      if (65 \<le> n \<and> n \<le> 90) \<or> (192 \<le> n \<and> n \<le> 222 \<and> n \<noteq> 215)
      then char_of (n + 32) else c)"

definition toLowerCase :: "string \<Rightarrow> string" where
  "toLowerCase s = map lower_char s"

subsection \<open>\<open>parseInt\<close> with one argument\<close>

text \<open>
  The standard's algorithm: \<open>ToString\<close> the argument, strip leading white space, read
  a sign, switch to radix 16 after \<open>0x\<close> or \<open>0X\<close>, take the longest prefix of digits
  of the radix, and answer NaN when that prefix is empty, else the double nearest to
  the signed value of the prefix. (Past the 20th significant decimal digit the standard
  lets an engine approximate; V8, the engine of Node.js, rounds to the nearest double
  all the same.)
\<close>

definition StrWhiteSpaceChar :: "char \<Rightarrow> bool" where
  "StrWhiteSpaceChar c = ((of_char c :: nat) \<in> {9, 10, 11, 12, 13, 32, 160})"

definition digit_value :: "char \<Rightarrow> nat" where
  "digit_value c =
     (let n = (of_char c :: nat) in
      if 48 \<le> n \<and> n \<le> 57 then n - 48
      else if 97 \<le> n \<and> n \<le> 122 then n - 87
      else if 65 \<le> n \<and> n \<le> 90 then n - 55
      else 36)"

definition radix_digit :: "nat \<Rightarrow> char \<Rightarrow> bool" where
  "radix_digit R c = (digit_value c < R)"

definition radix_value :: "nat \<Rightarrow> string \<Rightarrow> nat" where
  "radix_value R Z = foldl (\<lambda>n c. n * R + digit_value c) 0 Z"

fun strip_sign :: "string \<Rightarrow> int \<times> string" where
  "strip_sign [] = (1, [])"
| "strip_sign (c # cs) =
     (if c = CHR ''-'' then (- 1, cs) else if c = CHR ''+'' then (1, cs) else (1, c # cs))"

fun strip_prefix :: "string \<Rightarrow> nat \<times> string" where
  "strip_prefix (a # b # cs) =
     (if a = CHR ''0'' \<and> (b = CHR ''x'' \<or> b = CHR ''X'') then (16, cs) else (10, a # b # cs))"
| "strip_prefix cs = (10, cs)"

definition parseInt :: "jsval \<Rightarrow> jsnum" where
  "parseInt v =
     (let inputString = ToString v;
          S = dropWhile StrWhiteSpaceChar inputString;
          (sign, S1) = strip_sign S;
          (R, S2) = strip_prefix S1;
          Z = takeWhile (radix_digit R) S2
      in if Z = [] then NaN else double_of_int (sign * int (radix_value R Z)))"

section \<open>Records\<close>

record Stats =
  confirmed :: jsnum
  deaths :: jsnum
  recovered :: jsnum

record Coordinates =
  latitude :: jsval
  longitude :: jsval

text \<open>
  The record is generic in how it holds its \<open>stats\<close> object: by value (a
  \<open>Stats Record\<close>, the JSON tree) or by reference into a heap (an \<open>addr Record\<close>),
  which is what \<open>generalizedJhudataV2\<close> needs, since it writes through a shared
  reference.
\<close>

record 's Record =
  country :: jsval
  province :: jsval
  county :: jsval
  updatedAt :: jsval
  stats :: 's
  coordinates :: Coordinates

section \<open>\<open>extractData\<close>\<close>

text \<open>\<open>loc[i]\<close> on an array of strings.\<close>

definition at_index :: "string list \<Rightarrow> nat \<Rightarrow> jsval" where
  "at_index loc i = (if i < length loc then Str (loc ! i) else Undefined)"

definition extractData :: "string list \<Rightarrow> Stats Record" where
  "extractData loc =
     \<lparr> country = at_index loc 3,
       province = or_null (at_index loc 2),
       county = or_null (at_index loc 1),
       updatedAt = at_index loc 4,
       stats = \<lparr> confirmed = parseInt (at_index loc 7),
                 deaths = parseInt (at_index loc 8),
                 recovered = parseInt (at_index loc 9) \<rparr>,
       coordinates = \<lparr> latitude = at_index loc 5, longitude = at_index loc 6 \<rparr> \<rparr>"

section \<open>\<open>jhudataV2\<close>: the ingestion\<close>

text \<open>
  What the function calls and does not define: the clock and the date arithmetic
  (\<open>dateString\<close>, or the exception they raise), \<open>axios.get\<close> (the response's
  \<open>data\<close>, or a rejection), the CSV parser and \<open>JSON.stringify\<close>. Each may fail.
\<close>

record collaborators =
  dateString_of_yesterday :: "error + string"
  axios_get :: "string \<Rightarrow> error + string"
  csv_fromString :: "string \<Rightarrow> error + string list list"
  JSON_stringify :: "Stats Record list \<Rightarrow> error + string"

datatype logline = Info string | Err string error

text \<open>
  The store behind \<open>redis\<close>, every \<open>redis.set\<close> call made so far (oldest first),
  and the logger's lines.
\<close>

record world =
  redis_store :: "string \<rightharpoonup> string"
  redis_sets :: "(string \<times> string) list"
  logged :: "logline list"

definition base :: string where
  "base = ''https://raw.githubusercontent.com/CSSEGISandData/COVID-19/master/csse_covid_19_data/csse_covid_19_daily_reports/''"

text \<open>
  \<open>redis.set(key, value)\<close> on the instance the caller passes in: the value is
  stored under the key, replacing what was there.
\<close>

definition redis_set :: "string \<Rightarrow> string \<Rightarrow> world \<Rightarrow> world" where
  "redis_set k v w =
     w\<lparr> redis_store := (redis_store w)(k \<mapsto> v), redis_sets := redis_sets w @ [(k, v)] \<rparr>"

text \<open>
  Modelled from the spec: the logging collaborator (\<open>utils/logger\<close> is not among
  the sources) writes an informational line or an error line with its cause; it is
  observational only, and does not raise.
\<close>

definition logger_info :: "string \<Rightarrow> world \<Rightarrow> world" where
  "logger_info msg w = w\<lparr> logged := logged w @ [Info msg] \<rparr>"

definition logger_err :: "string \<Rightarrow> error \<Rightarrow> world \<Rightarrow> world" where
  "logger_err msg e w = w\<lparr> logged := logged w @ [Err msg e] \<rparr>"

fun show_nat :: "nat \<Rightarrow> string" where
  "show_nat n =
     (if n < 10 then [char_of (48 + n)] else show_nat (n div 10) @ [char_of (48 + n mod 10)])"

text \<open>The \<open>catch\<close> block: log and return.\<close>

definition catch_block :: "error \<Rightarrow> world \<Rightarrow> error + world" where
  "catch_block e w = Inr (logger_err ''Error: Requesting JHULocations failed!'' e w)"

text \<open>
  The result is \<open>Inr\<close> of the world the call leaves when the promise resolves, and
  would be \<open>Inl\<close> for an exception that leaves the function.
\<close>

definition jhudataV2 :: "collaborators \<Rightarrow> string \<Rightarrow> world \<Rightarrow> error + world" where
  "jhudataV2 env jhu_v2 w =
     (case dateString_of_yesterday env of
        Inl e \<Rightarrow> catch_block e w
      | Inr dateString \<Rightarrow>
          (let w1 = logger_info (''USING '' @ dateString @ ''.csv CSSEGISandData'') w in
           case axios_get env (base @ ''/'' @ dateString @ ''.csv'') of
             Inl e \<Rightarrow> catch_block e w1
           | Inr response_data \<Rightarrow>
               (case csv_fromString env response_data of
                  Inl e \<Rightarrow> catch_block e w1
                | Inr parsed \<Rightarrow>
                    (let result = map extractData (drop 1 parsed) in
                     case JSON_stringify env result of
                       Inl e \<Rightarrow> catch_block e w1
                     | Inr json \<Rightarrow>
                         Inr (logger_info
                                (''Updated JHU CSSE: '' @ show_nat (length result) @ '' locations'')
                                (redis_set jhu_v2 json w1))))))"

section \<open>\<open>getCountyJhuDataV2\<close>\<close>

text \<open>\<open>Array.prototype.filter\<close> with a callback that may throw.\<close>

fun filter_throwing :: "('a \<Rightarrow> error + bool) \<Rightarrow> 'a list \<Rightarrow> error + 'a list" where
  "filter_throwing p [] = Inr []"
| "filter_throwing p (x # xs) =
     (case p x of
        Inl e \<Rightarrow> Inl e
      | Inr b \<Rightarrow>
          (case filter_throwing p xs of
             Inl e \<Rightarrow> Inl e
           | Inr ys \<Rightarrow> Inr (if b then x # ys else ys)))"

text \<open>
  The callback \<open>loc.county !== null && loc.county.toLowerCase() === county\<close>:
  \<open>undefined.toLowerCase()\<close> is a TypeError.
\<close>

definition county_matches :: "jsval \<Rightarrow> 's Record \<Rightarrow> error + bool" where
  "county_matches c loc =
     (case county loc of
        Null \<Rightarrow> Inr False
      | Undefined \<Rightarrow> Inl TypeError
      | Str s \<Rightarrow> Inr (Str (toLowerCase s) = c))"

text \<open>The default parameter \<open>county = null\<close> stands in for \<open>undefined\<close>.\<close>

definition getCountyJhuDataV2 :: "'s Record list \<Rightarrow> jsval \<Rightarrow> error + 's Record list" where
  "getCountyJhuDataV2 data county_arg =
     (let c = (if county_arg = Undefined then Null else county_arg) in
      if truthy c then filter_throwing (county_matches c) data
      else Inr (filter (\<lambda>loc. county loc \<noteq> Null) data))"

section \<open>\<open>generalizedJhudataV2\<close>\<close>

subsection \<open>The heap of \<open>stats\<close> objects\<close>

type_synonym addr = nat
type_synonym heap = "addr \<Rightarrow> Stats"

definition with_stats :: "'b \<Rightarrow> 'a Record \<Rightarrow> 'b Record" where
  "with_stats s r =
     \<lparr> country = country r, province = province r, county = county r,
       updatedAt = updatedAt r, stats = s, coordinates = coordinates r \<rparr>"

text \<open>A record with its \<open>stats\<close> object read from the heap.\<close>

definition deref :: "heap \<Rightarrow> addr Record \<Rightarrow> Stats Record" where
  "deref h r = with_stats (h (stats r)) r"

text \<open>
  The objects of a collection as \<open>JSON.parse\<close> builds them: record \<open>i\<close> owns the
  \<open>stats\<close> object at address \<open>i\<close>, shared with nothing.
\<close>

definition unused_cell :: Stats where
  "unused_cell = \<lparr> confirmed = NaN, deaths = NaN, recovered = NaN \<rparr>"

definition objects_of :: "Stats Record list \<Rightarrow> addr Record list" where
  "objects_of data = map (\<lambda>(i, r). with_stats i r) (enumerate 0 data)"

definition heap_of :: "Stats Record list \<Rightarrow> heap" where
  "heap_of data = (\<lambda>a. if a < length data then stats (data ! a) else unused_cell)"

text \<open>
  The three statements \<open>acc.stats.f += loc.stats.f\<close>, in the source's order, on the
  objects at \<open>a\<close> (the accumulator's) and \<open>l\<close> (the current record's).
\<close>

definition add_stats :: "addr \<Rightarrow> addr \<Rightarrow> heap \<Rightarrow> heap" where
  "add_stats a l h =
     (let h1 = h(a := (h a)\<lparr> confirmed := jsadd (confirmed (h a)) (confirmed (h l)) \<rparr>);
          h2 = h1(a := (h1 a)\<lparr> deaths := jsadd (deaths (h1 a)) (deaths (h1 l)) \<rparr>);
          h3 = h2(a := (h2 a)\<lparr> recovered := jsadd (recovered (h2 a)) (recovered (h2 l)) \<rparr>)
      in h3)"

subsection \<open>The object \<open>statesResult\<close>\<close>

text \<open>
  \<open>statesResult = {}\<close> is an ordinary object: its own properties in creation order,
  and behind them the properties of \<open>Object.prototype\<close>, here the ones the language
  standard and its annex on legacy features define. A read \<open>statesResult[k]\<close> turns
  \<open>k\<close> into a string and finds an own property, or an inherited one (a function, or
  the prototype itself for \<open>__proto__\<close>: truthy, and without a \<open>stats\<close> property,
  so that \<open>.stats.confirmed\<close> on it is a TypeError), or nothing (\<open>undefined\<close>).
\<close>

datatype 'v lookup = Own 'v | Inherited | Absent

definition Object_prototype_names :: "string list" where
  "Object_prototype_names =
     [''constructor'', ''__defineGetter__'', ''__defineSetter__'', ''hasOwnProperty'',
      ''__lookupGetter__'', ''__lookupSetter__'', ''isPrototypeOf'',
      ''propertyIsEnumerable'', ''toString'', ''valueOf'', ''__proto__'',
      ''toLocaleString'']"

definition get_property :: "(string \<times> 'v) list \<Rightarrow> string \<Rightarrow> 'v lookup" where
  "get_property obj k =
     (case map_of obj k of
        Some v \<Rightarrow> Own v
      | None \<Rightarrow> if k \<in> set Object_prototype_names then Inherited else Absent)"

text \<open>
  \<open>Object.keys\<close>: the keys that are array indices (canonical decimal numerals up to
  \<open>2^32 - 2\<close>) in ascending numeric order, then the other keys in creation order.
\<close>

definition is_array_index :: "string \<Rightarrow> bool" where
  "is_array_index k =
     (case k of
        [] \<Rightarrow> False
      | c # cs \<Rightarrow>
          list_all (radix_digit 10) k \<and> (cs = [] \<or> c \<noteq> CHR ''0'')
          \<and> radix_value 10 k < 4294967295)"

definition Object_keys :: "(string \<times> 'v) list \<Rightarrow> string list" where
  "Object_keys obj =
     (let ks = map fst obj
      in sort_key (radix_value 10) (filter is_array_index ks)
         @ filter (\<lambda>k. \<not> is_array_index k) ks)"

subsection \<open>The loop and the function\<close>

type_synonym gstate = "addr Record list \<times> (string \<times> addr Record) list \<times> heap"

text \<open>\<open>{ province, ...defaultData } = loc; defaultData.province = province || null\<close>:
  a new record that shares \<open>loc\<close>'s \<open>stats\<close> object.\<close>

definition defaultData :: "'s Record \<Rightarrow> 's Record" where
  "defaultData loc = loc\<lparr> province := or_null (province loc) \<rparr>"

definition forEach_body :: "addr Record \<Rightarrow> gstate \<Rightarrow> error + gstate" where
  "forEach_body loc st =
     (case st of (result, statesResult, h) \<Rightarrow>
        if county loc \<noteq> Null then
          (case get_property statesResult (ToString (province loc)) of
             Own acc \<Rightarrow> Inr (result, statesResult, add_stats (stats acc) (stats loc) h)
           | Inherited \<Rightarrow> Inl TypeError
           | Absent \<Rightarrow>
               Inr (result, statesResult @ [(ToString (province loc), defaultData loc)], h))
        else Inr (result @ [defaultData loc], statesResult, h))"

fun forEach :: "addr Record list \<Rightarrow> gstate \<Rightarrow> error + gstate" where
  "forEach [] st = Inr st"
| "forEach (loc # locs) st =
     (case forEach_body loc st of Inl e \<Rightarrow> Inl e | Inr st' \<Rightarrow> forEach locs st')"

text \<open>
  The array returned, and the heap as the call leaves it.
\<close>

definition generalizedJhudataV2 ::
  "addr Record list \<Rightarrow> heap \<Rightarrow> error + (addr Record list \<times> heap)" where
  "generalizedJhudataV2 data h =
     (case forEach data ([], [], h) of
        Inl e \<Rightarrow> Inl e
      | Inr (result, statesResult, h') \<Rightarrow>
          Inr (result @ List.map_filter (map_of statesResult) (Object_keys statesResult), h'))"

text \<open>
  The call on a collection given by value: its objects are laid out as parsing
  builds them, and the answer is the returned array read by value, with the
  caller's own collection as the call leaves it.
\<close>

definition generalize :: "Stats Record list \<Rightarrow> error + (Stats Record list \<times> Stats Record list)" where
  "generalize data =
     (case generalizedJhudataV2 (objects_of data) (heap_of data) of
        Inl e \<Rightarrow> Inl e
      | Inr (out, h') \<Rightarrow> Inr (map (deref h') out, map (deref h') (objects_of data)))"

section \<open>Notions used to state the properties\<close>

text \<open>
  \<open>first_for k xs loc\<close>: in \<open>xs\<close>, \<open>loc\<close> is the first county-level record whose
  province reads as the property key \<open>k\<close>.
\<close>

definition first_for :: "string \<Rightarrow> addr Record list \<Rightarrow> addr Record \<Rightarrow> bool" where
  "first_for k xs loc \<longleftrightarrow>
     (\<exists>pre post. xs = pre @ loc # post \<and> county loc \<noteq> Null \<and> ToString (province loc) = k
        \<and> (\<forall>x\<in>set pre. county x \<noteq> Null \<longrightarrow> ToString (province x) \<noteq> k))"

text \<open>
  The loop invariant on the array and the object, after the records \<open>xs\<close>: the array
  holds the records without a county, \<open>statesResult\<close> holds one own property per key
  met on a county-level record, each the copy of the first record met for its key, and
  no own property hides an inherited one.
\<close>

definition shape :: "addr Record list \<Rightarrow> gstate \<Rightarrow> bool" where
  "shape xs st \<longleftrightarrow> (case st of (res, sr, h') \<Rightarrow>
     res = map defaultData (filter (\<lambda>r. county r = Null) xs)
     \<and> distinct (map fst sr)
     \<and> (\<forall>(k, v)\<in>set sr. \<exists>loc. first_for k xs loc \<and> v = defaultData loc)
     \<and> (\<forall>loc\<in>set xs. county loc \<noteq> Null \<longrightarrow> ToString (province loc) \<in> fst ` set sr)
     \<and> (\<forall>k\<in>fst ` set sr. k \<notin> set Object_prototype_names))"

definition stat_field :: "(Stats \<Rightarrow> jsnum) \<Rightarrow> bool" where
  "stat_field f \<longleftrightarrow> f = confirmed \<or> f = deaths \<or> f = recovered"

text \<open>
  The loop invariant on one field of the heap: a NaN is never overwritten, and a NaN
  read from a county-level record is in the accumulator of its key.
\<close>

definition nan_kept :: "(Stats \<Rightarrow> jsnum) \<Rightarrow> heap \<Rightarrow> addr Record list \<Rightarrow> gstate \<Rightarrow> bool" where
  "nan_kept f h xs st \<longleftrightarrow> (case st of (res, sr, h') \<Rightarrow>
     (\<forall>a. f (h a) = NaN \<longrightarrow> f (h' a) = NaN)
     \<and> (\<forall>loc\<in>set xs. county loc \<noteq> Null \<longrightarrow> f (h (stats loc)) = NaN \<longrightarrow>
           (\<exists>v. map_of sr (ToString (province loc)) = Some v \<and> f (h' (stats v)) = NaN)))"

text \<open>
  The characters \<open>0\<close> to \<open>9\<close>; a decimal numeral is a non-empty string of them; a
  string starts with a number when, after leading white space and one optional sign,
  its next character is one of them.
\<close>

definition is_decimal_digit :: "char \<Rightarrow> bool" where
  "is_decimal_digit c \<longleftrightarrow> 48 \<le> (of_char c :: nat) \<and> (of_char c :: nat) \<le> 57"

definition is_decimal_numeral :: "string \<Rightarrow> bool" where
  "is_decimal_numeral s \<longleftrightarrow> s \<noteq> [] \<and> list_all is_decimal_digit s"

definition starts_with_number :: "string \<Rightarrow> bool" where
  "starts_with_number s =
     (case snd (strip_sign (dropWhile StrWhiteSpaceChar s)) of
        [] \<Rightarrow> False
      | c # cs \<Rightarrow> is_decimal_digit c)"

text \<open>
  The keys of the county-level records of a collection, in input order, and the order
  in which the distinct elements of a list are first met.
\<close>

definition county_keys :: "'s Record list \<Rightarrow> string list" where
  "county_keys xs = map (\<lambda>loc. ToString (province loc)) (filter (\<lambda>loc. county loc \<noteq> Null) xs)"

definition first_seen :: "'a list \<Rightarrow> 'a list" where
  "first_seen xs = rev (remdups (rev xs))"

text \<open>
  The sum of a list of counts as the loop takes it: the first count is kept as it is
  and the others are added to it one by one, from the left. And the counts that the
  county-level records of one province key hold in a heap, in input order.
\<close>

fun jssum :: "jsnum list \<Rightarrow> jsnum" where
  "jssum [] = Num 0"
| "jssum (x # xs) = foldl jsadd x xs"

definition counts_for :: "(Stats \<Rightarrow> jsnum) \<Rightarrow> heap \<Rightarrow> string \<Rightarrow> addr Record list \<Rightarrow> jsnum list" where
  "counts_for f h k xs =
     map (\<lambda>loc. f (h (stats loc)))
       (filter (\<lambda>loc. county loc \<noteq> Null \<and> ToString (province loc) = k) xs)"

text \<open>
  The loop invariant on the sums: each accumulator holds the sum of its key's counts so
  far, and no other \<open>stats\<close> object has been written.
\<close>

definition sums :: "(Stats \<Rightarrow> jsnum) \<Rightarrow> heap \<Rightarrow> addr Record list \<Rightarrow> gstate \<Rightarrow> bool" where
  "sums f h xs st \<longleftrightarrow> (case st of (res, sr, h') \<Rightarrow>
     (\<forall>(k, v)\<in>set sr. f (h' (stats v)) = jssum (counts_for f h k xs))
     \<and> (\<forall>a. a \<notin> stats ` snd ` set sr \<longrightarrow> h' a = h a))"

text \<open>
  Two calls in a row on the same collection, the second on the objects as the first
  left them: the two arrays returned, each read when its call returns.
\<close>

definition generalize_twice ::
  "Stats Record list \<Rightarrow> error + (Stats Record list \<times> Stats Record list)" where
  "generalize_twice data =
     (case generalizedJhudataV2 (objects_of data) (heap_of data) of
        Inl e \<Rightarrow> Inl e
      | Inr (out1, h1) \<Rightarrow>
          (case generalizedJhudataV2 (objects_of data) h1 of
             Inl e \<Rightarrow> Inl e
           | Inr (out2, h2) \<Rightarrow> Inr (map (deref h1) out1, map (deref h2) out2)))"

text \<open>The province, the county and the confirmed count of a record.\<close>

definition summary :: "Stats Record \<Rightarrow> jsval \<times> jsval \<times> jsnum" where
  "summary r = (province r, county r, confirmed (stats r))"

text \<open>
  An integer numeral is a decimal numeral after one optional sign. A numeral \<open>d\<close> ends
  before \<open>rest\<close> when \<open>rest\<close> is empty or starts with a character that is neither a
  digit nor, after the numeral \<open>0\<close>, the \<open>x\<close> of a hexadecimal prefix.
\<close>

definition is_integer_numeral :: "string \<Rightarrow> bool" where
  "is_integer_numeral s = is_decimal_numeral (snd (strip_sign s))"

definition numeral_ends :: "string \<Rightarrow> string \<Rightarrow> bool" where
  "numeral_ends d rest =
     (case rest of
        [] \<Rightarrow> True
      | c # cs \<Rightarrow> \<not> is_decimal_digit c \<and> \<not> (d = ''0'' \<and> (c = CHR ''x'' \<or> c = CHR ''X'')))"

text \<open>
  The optional sign and what it stands for; the hexadecimal prefix; the hexadecimal
  digits \<open>0\<close> to \<open>9\<close>, \<open>A\<close> to \<open>F\<close> and \<open>a\<close> to \<open>f\<close>, a non-empty string of
  them, and a string that does not go on with one.
\<close>

definition is_sign :: "string \<Rightarrow> bool" where
  "is_sign sg \<longleftrightarrow> sg = [] \<or> sg = ''+'' \<or> sg = ''-''"

definition sign_of :: "string \<Rightarrow> int" where
  "sign_of sg = (if sg = ''-'' then - 1 else 1)"

definition is_hex_prefix :: "string \<Rightarrow> bool" where
  "is_hex_prefix p \<longleftrightarrow> p = ''0x'' \<or> p = ''0X''"

definition is_hex_digit :: "char \<Rightarrow> bool" where
  "is_hex_digit c \<longleftrightarrow>
     (let n = (of_char c :: nat)
      in (48 \<le> n \<and> n \<le> 57) \<or> (65 \<le> n \<and> n \<le> 70) \<or> (97 \<le> n \<and> n \<le> 102))"

definition is_hex_numeral :: "string \<Rightarrow> bool" where
  "is_hex_numeral s \<longleftrightarrow> s \<noteq> [] \<and> list_all is_hex_digit s"

definition no_hex_digit_next :: "string \<Rightarrow> bool" where
  "no_hex_digit_next rest = (case rest of [] \<Rightarrow> True | c # cs \<Rightarrow> \<not> is_hex_digit c)"

subsection \<open>Concrete inputs\<close>

text \<open>A row of the daily report: county, province and confirmed count vary.\<close>

definition example_row :: "string \<Rightarrow> string \<Rightarrow> string \<Rightarrow> string list" where
  "example_row county_name province_name confirmed_cell =
     ['''', county_name, province_name, ''US'', ''t0'', ''1.0'', ''2.0'', confirmed_cell, ''2'', ''1'']"

text \<open>Two counties of one province, the second with an unreadable count, and a
  record without a county between them.\<close>

definition example_collection :: "Stats Record list" where
  "example_collection = map extractData
     [example_row ''Orange'' ''California'' ''5'',
      example_row [] ''Hubei'' ''7'',
      example_row ''Kern'' ''California'' ''x'']"

text \<open>A run in which the download fails, over a cache that holds an older snapshot.\<close>

definition offline :: collaborators where
  "offline =
     \<lparr> dateString_of_yesterday = Inr ''03-21-2020'',
       axios_get = (\<lambda>url. Inl (Failure ''Network Error'')),
       csv_fromString = (\<lambda>text. Inr []),
       JSON_stringify = (\<lambda>result. Inr ''[]'') \<rparr>"

definition old_world :: world where
  "old_world =
     \<lparr> redis_store = [''jhu_v2'' \<mapsto> ''[{}]''], redis_sets = [], logged = [] \<rparr>"

text \<open>A row cut after its third field, the row of the specification's extraction
  test, and the record of a county named with a capital.\<close>

definition short_row :: "string list" where
  "short_row = ['''', ''Orange'', ''California'']"

definition spec_row :: "string list" where
  "spec_row = ['''', '''', ''ProvinceX'', ''CountryY'', ''t0'', ''1.0'', ''2.0'', ''10'', ''2'', ''1'']"

definition orange :: "Stats Record" where
  "orange = extractData (example_row ''Orange'' ''California'' ''5'')"

text \<open>The end-to-end scenario of the specification: three counties of California
  with 5, 10 and 3 confirmed cases, and Italy with 7.\<close>

definition scenario :: "Stats Record list" where
  "scenario = map extractData
     [example_row ''Orange'' ''California'' ''5'',
      example_row ''Kern'' ''California'' ''10'',
      example_row ''Napa'' ''California'' ''3'',
      example_row [] ''Italy'' ''7'']"

text \<open>A county without a province and a county of a province named \<open>null\<close>; a
  province named \<open>B\<close> before one named \<open>1\<close>; a province named \<open>constructor\<close>.\<close>

definition collision :: "Stats Record list" where
  "collision = map extractData
     [example_row ''Kent'' [] ''1'', example_row ''Essex'' ''null'' ''2'']"

definition numbered :: "Stats Record list" where
  "numbered = map extractData
     [example_row ''Kent'' ''B'' ''1'', example_row ''Essex'' ''1'' ''2'']"

definition inherited :: "Stats Record list" where
  "inherited = map extractData [example_row ''Kent'' ''constructor'' ''1'']"

text \<open>A county of California, and a county of a province named \<open>constructor\<close> whose
  confirmed count cannot be read.\<close>

definition nan_inherited :: "Stats Record list" where
  "nan_inherited = map extractData
     [example_row ''Orange'' ''California'' ''5'', example_row ''Kent'' ''constructor'' ''x'']"

section \<open>Evaluation\<close>

lemma double_exact: "\<bar>n\<bar> \<le> 9007199254740992 \<Longrightarrow> double_of_int n = Num n"
  by (simp add: double_of_int_def)

text \<open>\<open>bit_length\<close> is unfolded one binary digit of a numeral at a time.\<close>

declare bit_length.simps [simp del]

lemma bit_length_numeral:
  "bit_length 0 = 0"
  "bit_length (Suc 0) = 1"
  "bit_length (numeral k) = Suc (bit_length (numeral k div 2))"
  by (simp_all add: bit_length.simps [of 0] bit_length.simps [of "Suc 0"]
      bit_length.simps [of "numeral k"])

lemma bit_length_bounds: "0 < m \<Longrightarrow> 2 ^ (bit_length m - 1) \<le> m \<and> m < 2 ^ bit_length m"
proof (induction m rule: bit_length.induct)
  case (1 n)
  have step: "bit_length n = Suc (bit_length (n div 2))"
    using "1.prems" by (simp add: bit_length.simps [of n])
  show ?case
  proof (cases "n div 2 = 0")
    case True
    with "1.prems" have "n = 1" by (simp add: div_eq_0_iff)
    then show ?thesis by (simp add: bit_length_numeral)
  next
    case False
    with "1.IH" "1.prems" have ih: "2 ^ (bit_length (n div 2) - 1) \<le> n div 2"
      "n div 2 < 2 ^ bit_length (n div 2)"
      by auto
    from False have pos: "0 < bit_length (n div 2)"
      by (simp add: bit_length.simps [of "n div 2"])
    then have "2 * 2 ^ (bit_length (n div 2) - 1) = (2::nat) ^ bit_length (n div 2)"
      by (cases "bit_length (n div 2)") auto
    with ih show ?thesis
      by (simp add: step) linarith
  qed
qed

text \<open>Rounding moves an integer by at most \<open>2^-53\<close> of its magnitude.\<close>

lemma double_of_int_error:
  assumes "double_of_int n = Num v"
  shows "2 ^ 53 * \<bar>v - n\<bar> \<le> \<bar>n\<bar>"
proof (cases "\<bar>n\<bar> \<le> 9007199254740992")
  case True
  with assms show ?thesis by (simp add: double_of_int_def)
next
  case False
  define m where "m = nat \<bar>n\<bar>"
  define sh where "sh = bit_length m - 53"
  define q where "q = m div 2 ^ sh"
  define r where "r = m mod 2 ^ sh"
  define half where "half = (2::nat) ^ (sh - 1)"
  define q' where "q' = (if half < r \<or> (r = half \<and> odd q) then q + 1 else q)"
  from False have big: "2 ^ 53 < m" by (simp add: m_def)
  then have mpos: "0 < m" by (cases "m = 0") auto
  from bit_length_bounds [OF mpos] have lo: "2 ^ (bit_length m - 1) \<le> m" and hi: "m < 2 ^ bit_length m"
    by auto
  have L: "53 < bit_length m"
  proof (rule power_less_imp_less_exp)
    show "(1::nat) < 2" by simp
    show "(2::nat) ^ 53 < 2 ^ bit_length m" using big hi by (rule less_trans)
  qed
  then have sh: "1 \<le> sh" "bit_length m - 1 = 52 + sh" by (simp_all add: sh_def)
  have two: "(2::nat) ^ sh = 2 * half"
    using sh(1) by (cases sh) (auto simp: half_def)
  have m: "m = q * 2 ^ sh + r" and rlt: "r < 2 ^ sh"
    unfolding q_def r_def by (rule div_mult_mod_eq [symmetric]) simp
  from False have "double_of_int n =
      (if 2 ^ 1024 \<le> q' * 2 ^ sh then (if n < 0 then NegInf else PosInf)
       else Num (sgn n * int (q' * 2 ^ sh)))"
    unfolding double_of_int_def Let_def q'_def half_def r_def q_def sh_def m_def
    by (simp only: if_False)
  with assms have v: "v = sgn n * int (q' * 2 ^ sh)"
    by (simp only: split: if_splits) simp_all
  have n: "n = sgn n * int m"
    by (simp add: m_def sgn_if)
  have "\<bar>v - n\<bar> = \<bar>int (q' * 2 ^ sh) - int m\<bar>"
  proof -
    have "v - n = sgn n * (int (q' * 2 ^ sh) - int m)"
      using v n by (metis right_diff_distrib)
    moreover have "\<bar>sgn n\<bar> = 1" using False by (auto simp: sgn_if)
    ultimately show ?thesis by (simp add: abs_mult)
  qed
  also have "\<dots> \<le> int half"
    using m rlt two by (auto simp: q'_def algebra_simps)
  finally have "2 ^ 53 * \<bar>v - n\<bar> \<le> 2 ^ 53 * int half"
    by simp
  also have "\<dots> = int (2 ^ (52 + sh))"
    using two by (simp add: power_add)
  also have "\<dots> \<le> int m"
    using lo sh(2) by simp
  finally show ?thesis
    by (simp add: m_def)
qed

text \<open>From \<open>2^1024\<close> on, the double is an infinity.\<close>

lemma double_overflow:
  assumes "2 ^ 1024 \<le> \<bar>n\<bar>"
  shows "double_of_int n = (if n < 0 then NegInf else PosInf)"
proof -
  define m where "m = nat \<bar>n\<bar>"
  define sh where "sh = bit_length m - 53"
  define q where "q = m div 2 ^ sh"
  define r where "r = m mod 2 ^ sh"
  define half where "half = (2::nat) ^ (sh - 1)"
  define q' where "q' = (if half < r \<or> (r = half \<and> odd q) then q + 1 else q)"
  from assms have big: "2 ^ 1024 \<le> m"
    by (simp add: m_def le_nat_iff)
  then have mpos: "0 < m" by (cases "m = 0") auto
  from bit_length_bounds [OF mpos] have lo: "2 ^ (bit_length m - 1) \<le> m" and hi: "m < 2 ^ bit_length m"
    by auto
  have L: "1024 < bit_length m"
  proof (rule power_less_imp_less_exp)
    show "(1::nat) < 2" by simp
    show "(2::nat) ^ 1024 < 2 ^ bit_length m" using big hi by (rule le_less_trans)
  qed
  then have sh: "bit_length m - 1 = 52 + sh" "972 \<le> sh" by (simp_all add: sh_def)
  have "(2::nat) ^ 52 * 2 ^ sh \<le> m"
    using lo sh(1) by (simp add: power_add)
  then have "2 ^ 52 \<le> q"
    unfolding q_def by (simp add: less_eq_div_iff_mult_less_eq)
  then have "2 ^ 52 * 2 ^ sh \<le> q' * 2 ^ sh"
    by (auto simp: q'_def intro: mult_le_mono1)
  moreover have "(2::nat) ^ 1024 \<le> 2 ^ 52 * 2 ^ sh"
  proof -
    have "(2::nat) ^ 1024 = 2 ^ (52 + 972)" by simp
    also have "\<dots> \<le> 2 ^ (52 + sh)" using sh(2) by (intro power_increasing) auto
    finally show ?thesis by (simp add: power_add)
  qed
  ultimately have v: "2 ^ 1024 \<le> q' * 2 ^ sh"
    by linarith
  have "(9007199254740992::int) < 2 ^ 1024" by simp
  with assms have "\<not> \<bar>n\<bar> \<le> 9007199254740992" by linarith
  then have "double_of_int n =
      (if 2 ^ 1024 \<le> q' * 2 ^ sh then (if n < 0 then NegInf else PosInf)
       else Num (sgn n * int (q' * 2 ^ sh)))"
    unfolding double_of_int_def Let_def q'_def half_def r_def q_def sh_def m_def
    by (simp only: if_False)
  with v show ?thesis
    by (simp only: if_True)
qed

lemmas parse_ev = parseInt_def StrWhiteSpaceChar_def radix_digit_def digit_value_def radix_value_def
  double_exact

lemmas extract_ev = example_row_def extractData_def at_index_def or_null_def parse_ev

lemma add_stats_apply:
  "add_stats a l h =
     h(a := \<lparr> confirmed = jsadd (confirmed (h a)) (confirmed (h l)),
              deaths = jsadd (deaths (h a)) (deaths (h l)),
              recovered = jsadd (recovered (h a)) (recovered (h l)) \<rparr>)"
  by (simp add: add_stats_def Let_def fun_eq_iff)

lemmas loop_ev = generalizedJhudataV2_def forEach_body_def get_property_def
  Object_prototype_names_def defaultData_def add_stats_apply Object_keys_def is_array_index_def
  objects_of_def heap_of_def with_stats_def or_null_def jsadd_def double_exact

lemma example_collection_eq:
  "example_collection =
     [\<lparr>country = Str ''US'', province = Str ''California'', county = Str ''Orange'',
        updatedAt = Str ''t0'', stats = \<lparr>confirmed = Num 5, deaths = Num 2, recovered = Num 1\<rparr>,
        coordinates = \<lparr>latitude = Str ''1.0'', longitude = Str ''2.0''\<rparr>\<rparr>,
      \<lparr>country = Str ''US'', province = Str ''Hubei'', county = Null,
        updatedAt = Str ''t0'', stats = \<lparr>confirmed = Num 7, deaths = Num 2, recovered = Num 1\<rparr>,
        coordinates = \<lparr>latitude = Str ''1.0'', longitude = Str ''2.0''\<rparr>\<rparr>,
      \<lparr>country = Str ''US'', province = Str ''California'', county = Str ''Kern'',
        updatedAt = Str ''t0'', stats = \<lparr>confirmed = NaN, deaths = Num 2, recovered = Num 1\<rparr>,
        coordinates = \<lparr>latitude = Str ''1.0'', longitude = Str ''2.0''\<rparr>\<rparr>]"
  by (simp add: example_collection_def extract_ev)

lemma example_run:
  "\<exists>out h'. generalizedJhudataV2 (objects_of example_collection) (heap_of example_collection)
      = Inr (out, h')"
  by (simp add: example_collection_eq loop_ev)

lemmas gen_ev = generalize_def generalize_twice_def deref_def summary_def loop_ev

section \<open>\<open>parseInt\<close> and \<open>extractData\<close>\<close>

lemma parseInt_Undefined: "parseInt Undefined = NaN"
  by (simp add: parse_ev)

lemma radix_digit_10: "radix_digit 10 c = is_decimal_digit c"
  by (auto simp: radix_digit_def digit_value_def is_decimal_digit_def Let_def)

lemma digit_not_space: "is_decimal_digit c \<Longrightarrow> \<not> StrWhiteSpaceChar c"
  by (auto simp: is_decimal_digit_def StrWhiteSpaceChar_def)

lemma digit_not_sign: "is_decimal_digit c \<Longrightarrow> c \<noteq> CHR ''-'' \<and> c \<noteq> CHR ''+'' \<and> c \<noteq> CHR ''x'' \<and> c \<noteq> CHR ''X''"
  by (auto simp: is_decimal_digit_def)

lemma radix_digit_16: "radix_digit 16 c = is_hex_digit c"
  by (auto simp: radix_digit_def digit_value_def is_hex_digit_def Let_def)

lemma sign_not_space: "is_sign (a # sg) \<Longrightarrow> \<not> StrWhiteSpaceChar a"
  by (auto simp: is_sign_def StrWhiteSpaceChar_def)

text \<open>White space, then an optional sign, then something that starts with a digit.\<close>

lemma skip_space_and_sign:
  assumes w: "list_all StrWhiteSpaceChar w" and sg: "is_sign sg" and c: "is_decimal_digit c"
  shows "strip_sign (dropWhile StrWhiteSpaceChar (w @ sg @ c # cs)) = (sign_of sg, c # cs)"
proof -
  have "\<not> StrWhiteSpaceChar (hd (sg @ c # cs))"
    using sg c by (cases sg) (auto dest: sign_not_space digit_not_space)
  with w have "dropWhile StrWhiteSpaceChar (w @ sg @ c # cs) = sg @ c # cs"
    by (cases "sg @ c # cs") (auto simp: dropWhile_append2 list_all_iff)
  moreover have "strip_sign (sg @ c # cs) = (sign_of sg, c # cs)"
    using sg digit_not_sign [OF c] by (auto simp: is_sign_def sign_of_def)
  ultimately show ?thesis
    by simp
qed

lemma strip_prefix_numeral:
  assumes "is_decimal_numeral d" "numeral_ends d rest"
  shows "strip_prefix (d @ rest) = (10, d @ rest)"
proof -
  from assms(1) obtain c ds where d: "d = c # ds" and all: "list_all is_decimal_digit ds"
    by (cases d) (auto simp: is_decimal_numeral_def)
  show ?thesis
  proof (cases ds)
    case Nil
    with d assms(2) show ?thesis
      by (cases rest) (auto simp: numeral_ends_def)
  next
    case (Cons c' ds')
    with all have "is_decimal_digit c'"
      by simp
    from digit_not_sign [OF this] d Cons show ?thesis
      by simp
  qed
qed

lemma parseInt_decimal:
  assumes w: "list_all StrWhiteSpaceChar w" and sg: "is_sign sg"
    and d: "is_decimal_numeral d" and rest: "numeral_ends d rest"
  shows "parseInt (Str (w @ sg @ d @ rest)) = double_of_int (sign_of sg * int (radix_value 10 d))"
proof -
  from d obtain c cs where dc: "d = c # cs" and c: "is_decimal_digit c"
    and all: "\<forall>x\<in>set d. radix_digit 10 x"
    by (cases d) (auto simp: is_decimal_numeral_def radix_digit_10 list_all_iff)
  have "strip_sign (dropWhile StrWhiteSpaceChar (w @ sg @ d @ rest)) = (sign_of sg, d @ rest)"
    using skip_space_and_sign [OF w sg c, of "cs @ rest"] by (simp add: dc)
  moreover have "takeWhile (radix_digit 10) rest = []"
    using rest by (cases rest) (auto simp: numeral_ends_def radix_digit_10)
  with all have "takeWhile (radix_digit 10) (d @ rest) = d"
    by (simp add: takeWhile_append2)
  ultimately show ?thesis
    using strip_prefix_numeral [OF d rest] dc by (simp add: parseInt_def)
qed

lemma parseInt_hex_prefix:
  assumes w: "list_all StrWhiteSpaceChar w" and sg: "is_sign sg" and p: "is_hex_prefix p"
    and hx: "list_all is_hex_digit hx" and rest: "no_hex_digit_next rest"
  shows "parseInt (Str (w @ sg @ p @ hx @ rest)) =
     (if hx = [] then NaN else double_of_int (sign_of sg * int (radix_value 16 hx)))"
proof -
  from p obtain b where pb: "p = [CHR ''0'', b]" and b: "b = CHR ''x'' \<or> b = CHR ''X''"
    by (auto simp: is_hex_prefix_def)
  have zero: "is_decimal_digit (CHR ''0'')"
    by (simp add: is_decimal_digit_def)
  have skip: "strip_sign (dropWhile StrWhiteSpaceChar (w @ sg @ p @ hx @ rest))
      = (sign_of sg, p @ hx @ rest)"
    using skip_space_and_sign [OF w sg zero, of "b # hx @ rest"] by (simp add: pb)
  have pre: "strip_prefix (p @ hx @ rest) = (16, hx @ rest)"
    using b by (auto simp: pb)
  have "takeWhile (radix_digit 16) rest = []"
    using rest by (cases rest) (auto simp: no_hex_digit_next_def radix_digit_16)
  with hx have "takeWhile (radix_digit 16) (hx @ rest) = hx"
    by (simp add: takeWhile_append2 radix_digit_16 list_all_iff)
  with skip pre show ?thesis
    by (simp add: parseInt_def)
qed

lemma parseInt_hex:
  assumes "list_all StrWhiteSpaceChar w" "is_sign sg" "is_hex_prefix p"
    "is_hex_numeral hx" "no_hex_digit_next rest"
  shows "parseInt (Str (w @ sg @ p @ hx @ rest)) = double_of_int (sign_of sg * int (radix_value 16 hx))"
  using parseInt_hex_prefix [OF assms(1,2,3) _ assms(5), of hx] assms(4)
  by (simp add: is_hex_numeral_def)

lemma parseInt_hex_empty:
  assumes "list_all StrWhiteSpaceChar w" "is_sign sg" "is_hex_prefix p" "no_hex_digit_next rest"
  shows "parseInt (Str (w @ sg @ p @ rest)) = NaN"
  using parseInt_hex_prefix [OF assms(1,2,3) _ assms(4), of "[]"] by simp

lemma strip_prefix_no_digit:
  "(case s of [] \<Rightarrow> True | c # cs \<Rightarrow> \<not> is_decimal_digit c) \<Longrightarrow> strip_prefix s = (10, s)"
  by (cases s rule: strip_prefix.cases) (auto simp: is_decimal_digit_def)

lemma parseInt_no_number:
  assumes "\<not> starts_with_number s"
  shows "parseInt (Str s) = NaN"
proof -
  obtain sign S1 where ss: "strip_sign (dropWhile StrWhiteSpaceChar s) = (sign, S1)"
    by (cases "strip_sign (dropWhile StrWhiteSpaceChar s)")
  with assms have nd: "case S1 of [] \<Rightarrow> True | c # cs \<Rightarrow> \<not> is_decimal_digit c"
    by (auto simp: starts_with_number_def split: list.splits)
  then have "takeWhile (radix_digit 10) S1 = []"
    by (cases S1) (auto simp: radix_digit_10)
  with strip_prefix_no_digit [OF nd] ss show ?thesis
    by (simp add: parseInt_def)
qed

lemma strip_sign_split:
  obtains sg where "is_sign sg" "s = sg @ snd (strip_sign s)" "fst (strip_sign s) = sign_of sg"
proof (cases s)
  case Nil
  then show ?thesis by (intro that [of "[]"]) (simp_all add: is_sign_def sign_of_def)
next
  case (Cons c cs)
  show ?thesis
  proof (cases "c = CHR ''-''")
    case True
    with Cons show ?thesis by (intro that [of "''-''"]) (simp_all add: is_sign_def sign_of_def)
  next
    case False
    note nm = this
    show ?thesis
    proof (cases "c = CHR ''+''")
      case True
      with Cons show ?thesis by (intro that [of "''+''"]) (simp_all add: is_sign_def sign_of_def)
    next
      case False
      with nm Cons show ?thesis by (intro that [of "[]"]) (simp_all add: is_sign_def sign_of_def)
    qed
  qed
qed

text \<open>
  Every string has one of the four forms that the lemmas above give the value of.
\<close>

lemma parseInt_forms:
  "(\<exists>w sg d rest. s = w @ sg @ d @ rest \<and> list_all StrWhiteSpaceChar w \<and> is_sign sg
        \<and> is_decimal_numeral d \<and> numeral_ends d rest)
   \<or> (\<exists>w sg p hx rest. s = w @ sg @ p @ hx @ rest \<and> list_all StrWhiteSpaceChar w \<and> is_sign sg
        \<and> is_hex_prefix p \<and> is_hex_numeral hx \<and> no_hex_digit_next rest)
   \<or> (\<exists>w sg p rest. s = w @ sg @ p @ rest \<and> list_all StrWhiteSpaceChar w \<and> is_sign sg
        \<and> is_hex_prefix p \<and> no_hex_digit_next rest)
   \<or> \<not> starts_with_number s"
proof (cases "starts_with_number s")
  case False
  then show ?thesis by simp
next
  case True
  define w where "w = takeWhile StrWhiteSpaceChar s"
  define s1 where "s1 = dropWhile StrWhiteSpaceChar s"
  have s: "s = w @ s1" and w: "list_all StrWhiteSpaceChar w"
    by (simp_all add: w_def s1_def list_all_iff) (meson set_takeWhileD)
  obtain sg where sg: "is_sign sg" "s1 = sg @ snd (strip_sign s1)"
    by (rule strip_sign_split)
  define s2 where "s2 = snd (strip_sign s1)"
  from True obtain c cs where s2: "s2 = c # cs" and c: "is_decimal_digit c"
    by (auto simp: starts_with_number_def s1_def s2_def split: list.splits)
  define d where "d = takeWhile is_decimal_digit s2"
  define rest where "rest = dropWhile is_decimal_digit s2"
  have split: "s2 = d @ rest"
    by (simp add: d_def rest_def)
  have d: "is_decimal_numeral d"
    using c by (auto simp: d_def s2 is_decimal_numeral_def list_all_iff dest: set_takeWhileD)
  have rest: "case rest of [] \<Rightarrow> True | x # xs \<Rightarrow> \<not> is_decimal_digit x"
    by (auto simp: rest_def dropWhile_eq_Cons_conv split: list.splits)
  have whole: "s = w @ sg @ d @ rest"
    using s sg(2) split by (simp add: s2_def)
  show ?thesis
  proof (cases "numeral_ends d rest")
    case True
    have "\<exists>w sg d rest. s = w @ sg @ d @ rest \<and> list_all StrWhiteSpaceChar w \<and> is_sign sg
        \<and> is_decimal_numeral d \<and> numeral_ends d rest"
      by (intro exI conjI) (rule whole w sg(1) d True)+
    then show ?thesis by (rule disjI1)
  next
    case False
    with rest obtain x rest' where x: "rest = x # rest'" "d = ''0''" "x = CHR ''x'' \<or> x = CHR ''X''"
      by (auto simp: numeral_ends_def split: list.splits)
    define p where "p = d @ [x]"
    define hx where "hx = takeWhile is_hex_digit rest'"
    define r where "r = dropWhile is_hex_digit rest'"
    have p: "is_hex_prefix p"
      using x by (auto simp: p_def is_hex_prefix_def)
    have r: "no_hex_digit_next r"
      by (auto simp: r_def no_hex_digit_next_def dropWhile_eq_Cons_conv split: list.splits)
    have whole': "s = w @ sg @ p @ hx @ r"
      using whole x(1) by (simp add: p_def hx_def r_def)
    show ?thesis
    proof (cases "hx = []")
      case True
      with whole' have "s = w @ sg @ p @ r" by simp
      then have "\<exists>w sg p rest. s = w @ sg @ p @ rest \<and> list_all StrWhiteSpaceChar w \<and> is_sign sg
          \<and> is_hex_prefix p \<and> no_hex_digit_next rest"
        using w sg(1) p r by (intro exI conjI)
      then show ?thesis by (rule disjI1 [THEN disjI2, THEN disjI2])
    next
      case False
      then have "is_hex_numeral hx"
        by (auto simp: hx_def is_hex_numeral_def list_all_iff dest: set_takeWhileD)
      then have "\<exists>w sg p hx rest. s = w @ sg @ p @ hx @ rest \<and> list_all StrWhiteSpaceChar w
          \<and> is_sign sg \<and> is_hex_prefix p \<and> is_hex_numeral hx \<and> no_hex_digit_next rest"
        using whole' w sg(1) p r by (intro exI conjI)
      then show ?thesis by (rule disjI1 [THEN disjI2])
    qed
  qed
qed

text \<open>
  Claim C7, refuted as stated: the cell \<open>12abc\<close> is not a number (it is not an
  integer numeral), and as field 7 of a row it gives the confirmed count 12, not NaN.
\<close>

theorem extract_full_row_counterexample:
  "\<not> is_integer_numeral ''12abc''
   \<and> confirmed (stats (extractData (example_row ''Orange'' ''California'' ''12abc''))) = Num 12"
  by (simp add: is_integer_numeral_def is_decimal_numeral_def is_decimal_digit_def extract_ev)

text \<open>
  Claim C7, amended. For a row of at least 10 fields, \<open>extractData\<close> maps field 3 to
  country, field 2 to province and field 1 to county, each with the empty string mapped
  to \<open>null\<close>, field 4 to updatedAt, fields 7, 8 and 9 through \<open>parseInt\<close> to
  confirmed, deaths and recovered, and fields 5 and 6 unparsed to latitude and
  longitude. \<open>parseInt\<close> skips leading white space and one optional sign. Then,
  unless the prefix \<open>0x\<close> or \<open>0X\<close> follows, it reads the longest run of decimal
  digits and ignores what comes after the run; after the prefix it reads the longest
  run of hexadecimal digits instead. When the run is empty the result is NaN (the
  string does not start with a number, or nothing hexadecimal follows the prefix);
  every string is in one of these cases. Otherwise the result is the signed value of
  the run as a double: exact up to \<open>2^53\<close> in magnitude, beyond that within
  \<open>2^-53\<close> of the magnitude, and an infinity from \<open>2^1024\<close>. The row of the
  specification's test yields the Record given there.
\<close>

theorem extract_full_row:
  assumes "10 \<le> length loc"
  shows "extractData loc =
      \<lparr> country = Str (loc ! 3),
        province = (if loc ! 2 = [] then Null else Str (loc ! 2)),
        county = (if loc ! 1 = [] then Null else Str (loc ! 1)),
        updatedAt = Str (loc ! 4),
        stats = \<lparr> confirmed = parseInt (Str (loc ! 7)),
                  deaths = parseInt (Str (loc ! 8)),
                  recovered = parseInt (Str (loc ! 9)) \<rparr>,
        coordinates = \<lparr> latitude = Str (loc ! 5), longitude = Str (loc ! 6) \<rparr> \<rparr>
    \<and> (\<forall>w sg d rest. list_all StrWhiteSpaceChar w \<and> is_sign sg \<and> is_decimal_numeral d
          \<and> numeral_ends d rest \<longrightarrow>
          parseInt (Str (w @ sg @ d @ rest)) = double_of_int (sign_of sg * int (radix_value 10 d)))
    \<and> (\<forall>w sg p hx rest. list_all StrWhiteSpaceChar w \<and> is_sign sg \<and> is_hex_prefix p
          \<and> is_hex_numeral hx \<and> no_hex_digit_next rest \<longrightarrow>
          parseInt (Str (w @ sg @ p @ hx @ rest)) = double_of_int (sign_of sg * int (radix_value 16 hx)))
    \<and> (\<forall>w sg p rest. list_all StrWhiteSpaceChar w \<and> is_sign sg \<and> is_hex_prefix p
          \<and> no_hex_digit_next rest \<longrightarrow>
          parseInt (Str (w @ sg @ p @ rest)) = NaN)
    \<and> (\<forall>s. \<not> starts_with_number s \<longrightarrow> parseInt (Str s) = NaN)
    \<and> (\<forall>s. (\<exists>w sg d rest. s = w @ sg @ d @ rest \<and> list_all StrWhiteSpaceChar w \<and> is_sign sg
                \<and> is_decimal_numeral d \<and> numeral_ends d rest)
           \<or> (\<exists>w sg p hx rest. s = w @ sg @ p @ hx @ rest \<and> list_all StrWhiteSpaceChar w
                \<and> is_sign sg \<and> is_hex_prefix p \<and> is_hex_numeral hx \<and> no_hex_digit_next rest)
           \<or> (\<exists>w sg p rest. s = w @ sg @ p @ rest \<and> list_all StrWhiteSpaceChar w \<and> is_sign sg
                \<and> is_hex_prefix p \<and> no_hex_digit_next rest)
           \<or> \<not> starts_with_number s)
    \<and> (\<forall>n. \<bar>n\<bar> \<le> 2 ^ 53 \<longrightarrow> double_of_int n = Num n)
    \<and> (\<forall>n v. double_of_int n = Num v \<longrightarrow> 2 ^ 53 * \<bar>v - n\<bar> \<le> \<bar>n\<bar>)
    \<and> (\<forall>n. 2 ^ 1024 \<le> \<bar>n\<bar> \<longrightarrow> double_of_int n = (if n < 0 then NegInf else PosInf))
    \<and> extractData spec_row =
      \<lparr> country = Str ''CountryY'', province = Str ''ProvinceX'', county = Null,
        updatedAt = Str ''t0'',
        stats = \<lparr> confirmed = Num 10, deaths = Num 2, recovered = Num 1 \<rparr>,
        coordinates = \<lparr> latitude = Str ''1.0'', longitude = Str ''2.0'' \<rparr> \<rparr>"
proof -
  have row: "extractData loc =
      \<lparr> country = Str (loc ! 3),
        province = (if loc ! 2 = [] then Null else Str (loc ! 2)),
        county = (if loc ! 1 = [] then Null else Str (loc ! 1)),
        updatedAt = Str (loc ! 4),
        stats = \<lparr> confirmed = parseInt (Str (loc ! 7)),
                  deaths = parseInt (Str (loc ! 8)),
                  recovered = parseInt (Str (loc ! 9)) \<rparr>,
        coordinates = \<lparr> latitude = Str (loc ! 5), longitude = Str (loc ! 6) \<rparr> \<rparr>"
    using assms by (simp add: extractData_def at_index_def or_null_def)
  have dec: "\<forall>w sg d rest. list_all StrWhiteSpaceChar w \<and> is_sign sg \<and> is_decimal_numeral d
          \<and> numeral_ends d rest \<longrightarrow>
          parseInt (Str (w @ sg @ d @ rest)) = double_of_int (sign_of sg * int (radix_value 10 d))"
    using parseInt_decimal by blast
  have hex: "\<forall>w sg p hx rest. list_all StrWhiteSpaceChar w \<and> is_sign sg \<and> is_hex_prefix p
          \<and> is_hex_numeral hx \<and> no_hex_digit_next rest \<longrightarrow>
          parseInt (Str (w @ sg @ p @ hx @ rest)) = double_of_int (sign_of sg * int (radix_value 16 hx))"
    using parseInt_hex by blast
  have hex0: "\<forall>w sg p rest. list_all StrWhiteSpaceChar w \<and> is_sign sg \<and> is_hex_prefix p
          \<and> no_hex_digit_next rest \<longrightarrow>
          parseInt (Str (w @ sg @ p @ rest)) = NaN"
    using parseInt_hex_empty by blast
  have nan: "\<forall>s. \<not> starts_with_number s \<longrightarrow> parseInt (Str s) = NaN"
    using parseInt_no_number by blast
  have forms: "\<forall>s. (\<exists>w sg d rest. s = w @ sg @ d @ rest \<and> list_all StrWhiteSpaceChar w \<and> is_sign sg
                \<and> is_decimal_numeral d \<and> numeral_ends d rest)
           \<or> (\<exists>w sg p hx rest. s = w @ sg @ p @ hx @ rest \<and> list_all StrWhiteSpaceChar w
                \<and> is_sign sg \<and> is_hex_prefix p \<and> is_hex_numeral hx \<and> no_hex_digit_next rest)
           \<or> (\<exists>w sg p rest. s = w @ sg @ p @ rest \<and> list_all StrWhiteSpaceChar w \<and> is_sign sg
                \<and> is_hex_prefix p \<and> no_hex_digit_next rest)
           \<or> \<not> starts_with_number s"
    by (rule allI) (rule parseInt_forms)
  have exact: "\<forall>n. \<bar>n\<bar> \<le> 2 ^ 53 \<longrightarrow> double_of_int n = Num n"
    by (simp add: double_exact)
  have near: "\<forall>n v. double_of_int n = Num v \<longrightarrow> 2 ^ 53 * \<bar>v - n\<bar> \<le> \<bar>n\<bar>"
    using double_of_int_error by blast
  have inf: "\<forall>n. 2 ^ 1024 \<le> \<bar>n\<bar> \<longrightarrow> double_of_int n = (if n < 0 then NegInf else PosInf)"
    using double_overflow by blast
  have spec: "extractData spec_row =
      \<lparr> country = Str ''CountryY'', province = Str ''ProvinceX'', county = Null,
        updatedAt = Str ''t0'',
        stats = \<lparr> confirmed = Num 10, deaths = Num 2, recovered = Num 1 \<rparr>,
        coordinates = \<lparr> latitude = Str ''1.0'', longitude = Str ''2.0'' \<rparr> \<rparr>"
    by (simp add: spec_row_def extractData_def at_index_def or_null_def parse_ev)
  from row dec hex hex0 nan forms exact near inf spec show ?thesis
    by (intro conjI)
qed

theorem extract_full_row_witness:
  "10 \<le> length spec_row
   \<and> extractData spec_row =
      \<lparr> country = Str ''CountryY'', province = Str ''ProvinceX'', county = Null,
        updatedAt = Str ''t0'',
        stats = \<lparr> confirmed = Num 10, deaths = Num 2, recovered = Num 1 \<rparr>,
        coordinates = \<lparr> latitude = Str ''1.0'', longitude = Str ''2.0'' \<rparr> \<rparr>
   \<and> parseInt (Str '' 12abc'') = Num 12
   \<and> parseInt (Str ''-5'') = Num (- 5)
   \<and> parseInt (Str ''0x1A'') = Num 26
   \<and> parseInt (Str ''0x'') = NaN
   \<and> \<not> starts_with_number ''n/a'' \<and> parseInt (Str ''n/a'') = NaN
   \<and> parseInt (Str ''9007199254740993'') = Num 9007199254740992
   \<and> double_of_int (2 ^ 1024) = PosInf"
proof -
  have len: "10 \<le> length spec_row"
    by (simp add: spec_row_def)
  note facts = extract_full_row [OF len]
  have sp: "list_all StrWhiteSpaceChar '' ''" "list_all StrWhiteSpaceChar []"
    and sg: "is_sign []" "is_sign ''-''" "sign_of [] = 1" "sign_of ''-'' = - 1"
    by (simp_all add: StrWhiteSpaceChar_def is_sign_def sign_of_def)
  have d12: "is_decimal_numeral ''12''" "numeral_ends ''12'' ''abc''" "radix_value 10 ''12'' = 12"
    and d5: "is_decimal_numeral ''5''" "numeral_ends ''5'' []" "radix_value 10 ''5'' = 5"
    and big: "is_decimal_numeral ''9007199254740993''" "numeral_ends ''9007199254740993'' []"
      "radix_value 10 ''9007199254740993'' = 9007199254740993"
    by (simp_all add: is_decimal_numeral_def is_decimal_digit_def numeral_ends_def radix_value_def
        digit_value_def)
  have hx: "is_hex_prefix ''0x''" "is_hex_numeral ''1A''" "no_hex_digit_next []"
    "radix_value 16 ''1A'' = 26"
    by (simp_all add: is_hex_prefix_def is_hex_numeral_def is_hex_digit_def no_hex_digit_next_def
        radix_value_def digit_value_def)
  have n: "\<not> starts_with_number ''n/a''"
    by (simp add: starts_with_number_def StrWhiteSpaceChar_def is_decimal_digit_def)
  from facts have row: "extractData spec_row =
      \<lparr> country = Str ''CountryY'', province = Str ''ProvinceX'', county = Null,
        updatedAt = Str ''t0'',
        stats = \<lparr> confirmed = Num 10, deaths = Num 2, recovered = Num 1 \<rparr>,
        coordinates = \<lparr> latitude = Str ''1.0'', longitude = Str ''2.0'' \<rparr> \<rparr>"
    by blast
  from facts have dec: "list_all StrWhiteSpaceChar w \<and> is_sign sg \<and> is_decimal_numeral d
      \<and> numeral_ends d rest \<longrightarrow>
      parseInt (Str (w @ sg @ d @ rest)) = double_of_int (sign_of sg * int (radix_value 10 d))"
    for w sg d rest
    by blast
  from facts have hex: "list_all StrWhiteSpaceChar w \<and> is_sign sg \<and> is_hex_prefix p
      \<and> is_hex_numeral hx \<and> no_hex_digit_next rest \<longrightarrow>
      parseInt (Str (w @ sg @ p @ hx @ rest)) = double_of_int (sign_of sg * int (radix_value 16 hx))"
    for w sg p hx rest
    by blast
  from facts have hex0: "list_all StrWhiteSpaceChar w \<and> is_sign sg \<and> is_hex_prefix p
      \<and> no_hex_digit_next rest \<longrightarrow> parseInt (Str (w @ sg @ p @ rest)) = NaN"
    for w sg p rest
    by blast
  from facts have nan: "\<not> starts_with_number s \<longrightarrow> parseInt (Str s) = NaN" for s
    by blast
  from facts have exact: "\<bar>n\<bar> \<le> 2 ^ 53 \<longrightarrow> double_of_int n = Num n" for n
    by blast
  from facts have near: "double_of_int n = Num v \<longrightarrow> 2 ^ 53 * \<bar>v - n\<bar> \<le> \<bar>n\<bar>" for n v
    by blast
  from facts have inf: "2 ^ 1024 \<le> \<bar>n\<bar> \<longrightarrow> double_of_int n = (if n < 0 then NegInf else PosInf)"
    for n
    by blast
  have "parseInt (Str '' 12abc'') = Num 12"
    using dec [of "'' ''" "[]" "''12''" "''abc''"] exact [of 12] sp sg d12 by simp
  moreover have "parseInt (Str ''-5'') = Num (- 5)"
    using dec [of "[]" "''-''" "''5''" "[]"] exact [of "- 5"] sp sg d5 by simp
  moreover have "parseInt (Str ''0x1A'') = Num 26"
    using hex [of "[]" "[]" "''0x''" "''1A''" "[]"] exact [of 26] sp sg hx by simp
  moreover have "parseInt (Str ''0x'') = NaN"
    using hex0 [of "[]" "[]" "''0x''" "[]"] sp sg hx by simp
  moreover have "parseInt (Str ''n/a'') = NaN"
    using nan n by blast
  moreover have "parseInt (Str ''9007199254740993'') = Num 9007199254740992"
  proof -
    have "parseInt (Str ''9007199254740993'') = double_of_int 9007199254740993"
      using dec [of "[]" "[]" "''9007199254740993''" "[]"] sp sg big by simp
    also have "\<dots> = Num 9007199254740992"
      by (simp add: double_of_int_def Let_def bit_length_numeral)
    finally show ?thesis .
  qed
  moreover have "double_of_int (2 ^ 1024) = PosInf"
    using inf [of "2 ^ 1024"] by simp
  ultimately show ?thesis
    using len row n by (intro conjI)
qed

text \<open>
  Claim C4, refuted as stated: the row \<open>short_row\<close> has fewer than 10 fields and its
  Record's country is \<open>undefined\<close>, not \<open>null\<close>.
\<close>

theorem short_row_country_is_null_counterexample:
  "length short_row < 10 \<and> country (extractData short_row) = Undefined
   \<and> country (extractData short_row) \<noteq> Null"
  by (simp add: short_row_def extractData_def at_index_def)

text \<open>
  Claim C4, amended. \<open>extractData\<close> is total: no step of it can raise. For a row of
  fewer than 10 fields, the field of a missing position is \<open>null\<close> for province and
  county, \<open>undefined\<close> for country, updatedAt, latitude and longitude, and NaN for
  confirmed, deaths and recovered.
\<close>

theorem short_row_missing_positions:
  assumes "length loc < 10"
  shows "(length loc \<le> 3 \<longrightarrow> country (extractData loc) = Undefined)
    \<and> (length loc \<le> 2 \<longrightarrow> province (extractData loc) = Null)
    \<and> (length loc \<le> 1 \<longrightarrow> county (extractData loc) = Null)
    \<and> (length loc \<le> 4 \<longrightarrow> updatedAt (extractData loc) = Undefined)
    \<and> (length loc \<le> 5 \<longrightarrow> latitude (coordinates (extractData loc)) = Undefined)
    \<and> (length loc \<le> 6 \<longrightarrow> longitude (coordinates (extractData loc)) = Undefined)
    \<and> (length loc \<le> 7 \<longrightarrow> confirmed (stats (extractData loc)) = NaN)
    \<and> (length loc \<le> 8 \<longrightarrow> deaths (stats (extractData loc)) = NaN)
    \<and> (length loc \<le> 9 \<longrightarrow> recovered (stats (extractData loc)) = NaN)"
  using assms
  by (simp add: extractData_def at_index_def or_null_def parse_ev)

theorem short_row_missing_positions_witness:
  "length short_row < 10
   \<and> country (extractData short_row) = Undefined
   \<and> province (extractData short_row) = Str ''California''
   \<and> county (extractData short_row) = Str ''Orange''
   \<and> updatedAt (extractData short_row) = Undefined
   \<and> latitude (coordinates (extractData short_row)) = Undefined
   \<and> longitude (coordinates (extractData short_row)) = Undefined
   \<and> stats (extractData short_row) = \<lparr> confirmed = NaN, deaths = NaN, recovered = NaN \<rparr>"
proof -
  have len: "length short_row < 10" "length short_row = 3"
    by (simp_all add: short_row_def)
  have present: "province (extractData short_row) = Str ''California''"
    "county (extractData short_row) = Str ''Orange''"
    by (simp_all add: short_row_def extractData_def at_index_def or_null_def)
  from short_row_missing_positions [OF len(1)] len present show ?thesis
    by (cases "stats (extractData short_row)") simp
qed

section \<open>The ingestion leaves the cache alone when a step fails\<close>

text \<open>
  Claim C5. If the download fails during \<open>jhudataV2\<close>, or the date, the CSV parse or
  the serialisation before the write does, then the call returns normally, the value
  stored under every key (the snapshot key included) is what it was before the call,
  no \<open>redis.set\<close> has been made, and the error has been logged.
\<close>

theorem ingest_failure_keeps_cache:
  assumes "dateString_of_yesterday env = Inl e
    \<or> (dateString_of_yesterday env = Inr d \<and> axios_get env (base @ ''/'' @ d @ ''.csv'') = Inl e)
    \<or> (dateString_of_yesterday env = Inr d \<and> axios_get env (base @ ''/'' @ d @ ''.csv'') = Inr body
         \<and> csv_fromString env body = Inl e)
    \<or> (dateString_of_yesterday env = Inr d \<and> axios_get env (base @ ''/'' @ d @ ''.csv'') = Inr body
         \<and> csv_fromString env body = Inr parsed
         \<and> JSON_stringify env (map extractData (drop 1 parsed)) = Inl e)"
  shows "\<exists>w'. jhudataV2 env jhu_v2 w = Inr w' \<and> redis_store w' = redis_store w
          \<and> redis_sets w' = redis_sets w
          \<and> (\<exists>l. logged w' = l @ [Err ''Error: Requesting JHULocations failed!'' e])"
  using assms
  by (auto simp: jhudataV2_def catch_block_def logger_err_def logger_info_def Let_def)

theorem ingest_failure_keeps_cache_witness:
  "axios_get offline (base @ ''/'' @ ''03-21-2020'' @ ''.csv'') = Inl (Failure ''Network Error'')
   \<and> (\<exists>w'. jhudataV2 offline ''jhu_v2'' old_world = Inr w'
         \<and> redis_store w' ''jhu_v2'' = Some ''[{}]'' \<and> redis_sets w' = [])"
proof -
  have fails: "dateString_of_yesterday offline = Inr ''03-21-2020''
      \<and> axios_get offline (base @ ''/'' @ ''03-21-2020'' @ ''.csv'') = Inl (Failure ''Network Error'')"
    by (simp add: offline_def)
  then have "\<exists>w'. jhudataV2 offline ''jhu_v2'' old_world = Inr w'
      \<and> redis_store w' = redis_store old_world \<and> redis_sets w' = redis_sets old_world
      \<and> (\<exists>l. logged w' = l @ [Err ''Error: Requesting JHULocations failed!'' (Failure ''Network Error'')])"
    by (intro ingest_failure_keeps_cache) blast
  with fails show ?thesis
    by (auto simp: old_world_def)
qed

section \<open>The county filter\<close>

text \<open>
  Claim C10. With the empty string as its county argument, \<open>getCountyJhuDataV2\<close>
  answers as it does with \<open>null\<close>: all the records whose county is not \<open>null\<close>, in
  their order, and not the records whose county is the empty string.
\<close>

theorem empty_county_argument_is_null:
  "getCountyJhuDataV2 data (Str []) = getCountyJhuDataV2 data Null
   \<and> getCountyJhuDataV2 data (Str []) = Inr (filter (\<lambda>loc. county loc \<noteq> Null) data)"
  by (simp add: getCountyJhuDataV2_def)

theorem empty_county_argument_is_null_witness:
  "getCountyJhuDataV2 example_collection (Str []) = getCountyJhuDataV2 example_collection Null
   \<and> getCountyJhuDataV2 example_collection (Str [])
       = Inr [example_collection ! 0, example_collection ! 2]"
proof -
  have counties: "filter (\<lambda>loc. county loc \<noteq> Null) example_collection
      = [example_collection ! 0, example_collection ! 2]"
    by (simp add: example_collection_eq)
  from empty_county_argument_is_null [of example_collection] show ?thesis
    unfolding counties .
qed

lemma lower_char_idem: "lower_char (lower_char c) = lower_char c"
  by (auto simp: lower_char_def Let_def)

lemma toLowerCase_idem: "toLowerCase (toLowerCase s) = toLowerCase s"
  by (simp add: toLowerCase_def lower_char_idem)

lemma filter_throwing_county_matches:
  "filter_throwing (county_matches c) data =
     (if list_ex (\<lambda>loc. county loc = Undefined) data then Inl TypeError
      else Inr (filter (\<lambda>loc. case county loc of Str s \<Rightarrow> toLowerCase s = c' | _ \<Rightarrow> False) data))"
  if "c = Str c'"
  using that by (induction data) (auto simp: county_matches_def split: jsval.splits)

lemma lower_orange:
  "toLowerCase ''Orange'' = ''orange''" "toLowerCase ''ORANGE'' = ''orange''"
  "toLowerCase ''orange'' = ''orange''"
  by (simp_all add: toLowerCase_def lower_char_def char_of_eq_iff)

text \<open>
  Claim C2, refuted as stated: the record \<open>orange\<close> has the county \<open>Orange\<close>, which
  is the argument \<open>Orange\<close> itself and differs from the argument \<open>ORANGE\<close> only
  in letter case, and the filter called with either argument does not return it.
\<close>

theorem county_filter_compares_lowercased_county_counterexample:
  "county orange = Str ''Orange''
   \<and> getCountyJhuDataV2 [orange] (Str ''Orange'') = Inr []
   \<and> toLowerCase ''Orange'' = toLowerCase ''ORANGE''
   \<and> getCountyJhuDataV2 [orange] (Str ''ORANGE'') = Inr []"
  by (simp add: orange_def extract_ev getCountyJhuDataV2_def county_matches_def lower_orange)

text \<open>
  Claim C2, amended. For a non-empty string argument, \<open>getCountyJhuDataV2\<close> returns
  exactly the records whose county is a string whose lower-cased form equals the
  argument as passed: the argument is not lower-cased. So for an argument already in
  lower case these are the records whose county equals it without regard to case, and
  for an argument with an upper-case letter there are none. (A record whose county is
  \<open>undefined\<close> makes the call raise a TypeError.)
\<close>

theorem county_filter_compares_lowercased_county:
  assumes "c \<noteq> []"
  shows "getCountyJhuDataV2 data (Str c) =
      (if list_ex (\<lambda>loc. county loc = Undefined) data then Inl TypeError
       else Inr (filter (\<lambda>loc. case county loc of Str s \<Rightarrow> toLowerCase s = c | _ \<Rightarrow> False) data))
    \<and> (toLowerCase c = c \<longrightarrow>
         filter (\<lambda>loc. case county loc of Str s \<Rightarrow> toLowerCase s = c | _ \<Rightarrow> False) data
         = filter (\<lambda>loc. case county loc of Str s \<Rightarrow> toLowerCase s = toLowerCase c | _ \<Rightarrow> False) data)
    \<and> (toLowerCase c \<noteq> c \<longrightarrow>
         filter (\<lambda>loc. case county loc of Str s \<Rightarrow> toLowerCase s = c | _ \<Rightarrow> False) data = [])"
proof -
  have "filter (\<lambda>loc. case county loc of Str s \<Rightarrow> toLowerCase s = c | _ \<Rightarrow> False) data = []"
    if "toLowerCase c \<noteq> c"
  proof -
    have "toLowerCase s \<noteq> c" for s
      using that toLowerCase_idem [of s] by auto
    then show ?thesis
      by (auto simp: filter_empty_conv split: jsval.splits)
  qed
  moreover have "filter (\<lambda>loc. case county loc of Str s \<Rightarrow> toLowerCase s = c | _ \<Rightarrow> False) data
         = filter (\<lambda>loc. case county loc of Str s \<Rightarrow> toLowerCase s = toLowerCase c | _ \<Rightarrow> False) data"
    if "toLowerCase c = c"
    by (simp only: that)
  moreover from assms have "getCountyJhuDataV2 data (Str c) =
      (if list_ex (\<lambda>loc. county loc = Undefined) data then Inl TypeError
       else Inr (filter (\<lambda>loc. case county loc of Str s \<Rightarrow> toLowerCase s = c | _ \<Rightarrow> False) data))"
    by (simp add: getCountyJhuDataV2_def filter_throwing_county_matches)
  ultimately show ?thesis
    by blast
qed

theorem county_filter_compares_lowercased_county_witness:
  "''orange'' \<noteq> [] \<and> toLowerCase ''orange'' = ''orange''
   \<and> getCountyJhuDataV2 [orange] (Str ''orange'') = Inr [orange]
   \<and> toLowerCase ''Orange'' \<noteq> ''Orange''
   \<and> getCountyJhuDataV2 [orange] (Str ''Orange'') = Inr []"
proof -
  have o: "county orange = Str ''Orange''"
    by (simp add: orange_def extract_ev)
  from county_filter_compares_lowercased_county [of "''orange''" "[orange]"]
    county_filter_compares_lowercased_county [of "''Orange''" "[orange]"]
  show ?thesis
    by (simp add: o lower_orange)
qed

section \<open>The loop of \<open>generalizedJhudataV2\<close>\<close>

lemma forEach_append:
  "forEach (xs @ ys) st = (case forEach xs st of Inl e \<Rightarrow> Inl e | Inr st' \<Rightarrow> forEach ys st')"
  by (induction xs arbitrary: st) (auto split: sum.splits)

lemma forEach_snoc_Inr:
  "forEach (xs @ [x]) st = Inr st2 \<longleftrightarrow>
     (\<exists>st1. forEach xs st = Inr st1 \<and> forEach_body x st1 = Inr st2)"
  by (auto simp: forEach_append split: sum.splits)

text \<open>What one round of the loop does.\<close>

lemma forEach_body_cases:
  assumes "forEach_body x (res, sr, h1) = Inr (res', sr', h2)"
  obtains
    (passthrough) "county x = Null" "res' = res @ [defaultData x]" "sr' = sr" "h2 = h1"
  | (add) acc where "county x \<noteq> Null" "map_of sr (ToString (province x)) = Some acc"
      "res' = res" "sr' = sr" "h2 = add_stats (stats acc) (stats x) h1"
  | (seed) "county x \<noteq> Null" "map_of sr (ToString (province x)) = None"
      "ToString (province x) \<notin> set Object_prototype_names"
      "res' = res" "sr' = sr @ [(ToString (province x), defaultData x)]" "h2 = h1"
  using assms
  by (auto simp: forEach_body_def get_property_def split: if_splits option.splits)

lemma forEach_result:
  assumes "generalizedJhudataV2 data h = Inr (out, h')"
  obtains res sr where "forEach data ([], [], h) = Inr (res, sr, h')"
    "out = res @ List.map_filter (map_of sr) (Object_keys sr)"
  using assms by (auto simp: generalizedJhudataV2_def split: sum.splits)

lemma first_for_snoc: "first_for k xs loc \<Longrightarrow> first_for k (xs @ [x]) loc"
  unfolding first_for_def by (metis append_Cons append_assoc)

lemma first_for_new:
  assumes "county x \<noteq> Null" "\<forall>y\<in>set xs. county y \<noteq> Null \<longrightarrow> ToString (province y) \<noteq> ToString (province x)"
  shows "first_for (ToString (province x)) (xs @ [x]) x"
  unfolding first_for_def using assms by blast

lemma entries_snoc:
  assumes "\<forall>(k, v)\<in>set sr. \<exists>loc. first_for k xs loc \<and> v = defaultData loc"
  shows "\<forall>(k, v)\<in>set sr. \<exists>loc. first_for k (xs @ [x]) loc \<and> v = defaultData loc"
  using assms by (fastforce intro: first_for_snoc)

lemma shape_step:
  assumes "shape xs st1" "forEach_body x st1 = Inr st2"
  shows "shape (xs @ [x]) st2"
proof -
  obtain res sr h1 where st1: "st1 = (res, sr, h1)" by (cases st1)
  obtain res' sr' h2 where st2: "st2 = (res', sr', h2)" by (cases st2)
  from assms(1) have
    res: "res = map defaultData (filter (\<lambda>r. county r = Null) xs)" and
    dist: "distinct (map fst sr)" and
    ent: "\<forall>(k, v)\<in>set sr. \<exists>loc. first_for k xs loc \<and> v = defaultData loc" and
    cov: "\<forall>loc\<in>set xs. county loc \<noteq> Null \<longrightarrow> ToString (province loc) \<in> fst ` set sr" and
    own: "\<forall>k\<in>fst ` set sr. k \<notin> set Object_prototype_names"
    by (simp_all add: shape_def st1)
  note ent' = entries_snoc [OF ent, of x]
  from assms(2) have "forEach_body x (res, sr, h1) = Inr (res', sr', h2)"
    by (simp add: st1 st2)
  then show ?thesis
  proof (cases rule: forEach_body_cases)
    case passthrough
    with res dist ent' cov own show ?thesis
      by (simp add: shape_def st2)
  next
    case (add acc)
    then have "ToString (province x) \<in> fst ` set sr"
      using map_of_eq_None_iff [of sr "ToString (province x)"] by auto
    with add res dist ent' cov own show ?thesis
      by (simp add: shape_def st2)
  next
    case seed
    then have notin: "ToString (province x) \<notin> fst ` set sr"
      by (simp add: map_of_eq_None_iff)
    with cov have "\<forall>y\<in>set xs. county y \<noteq> Null \<longrightarrow> ToString (province y) \<noteq> ToString (province x)"
      by metis
    with seed have "first_for (ToString (province x)) (xs @ [x]) x"
      by (intro first_for_new) auto
    with seed notin res dist ent' cov own show ?thesis
      by (auto simp: shape_def st2)
  qed
qed

lemma shape_forEach:
  "forEach xs ([], [], h) = Inr st \<Longrightarrow> shape xs st"
proof (induction xs arbitrary: st rule: rev_induct)
  case Nil
  then show ?case by (auto simp: shape_def)
next
  case (snoc x xs)
  then show ?case by (auto simp: forEach_snoc_Inr intro: shape_step)
qed

lemma add_stats_field:
  "stat_field f \<Longrightarrow>
     f (add_stats a l h b) = (if b = a then jsadd (f (h a)) (f (h l)) else f (h b))"
  by (auto simp: stat_field_def add_stats_apply)

lemma jsadd_NaN: "jsadd NaN y = NaN" "jsadd x NaN = NaN"
  by (cases x; simp add: jsadd_def)+

lemma nan_kept_step:
  assumes f: "stat_field f" and inv: "nan_kept f h xs st1" and dist: "shape xs st1"
    and body: "forEach_body x st1 = Inr st2"
  shows "nan_kept f h (xs @ [x]) st2"
proof -
  obtain res sr h1 where st1: "st1 = (res, sr, h1)" by (cases st1)
  obtain res' sr' h2 where st2: "st2 = (res', sr', h2)" by (cases st2)
  from inv have
    mono: "\<And>a. f (h a) = NaN \<Longrightarrow> f (h1 a) = NaN" and
    old: "\<And>loc. loc \<in> set xs \<Longrightarrow> county loc \<noteq> Null \<Longrightarrow> f (h (stats loc)) = NaN \<Longrightarrow>
           \<exists>v. map_of sr (ToString (province loc)) = Some v \<and> f (h1 (stats v)) = NaN"
    by (auto simp: nan_kept_def st1)
  from body have "forEach_body x (res, sr, h1) = Inr (res', sr', h2)"
    by (simp add: st1 st2)
  then show ?thesis
  proof (cases rule: forEach_body_cases)
    case passthrough
    with mono old show ?thesis
      by (auto simp: nan_kept_def st2)
  next
    case (add acc)
    have keep: "f (h2 a) = NaN" if "f (h1 a) = NaN" for a
      using that add(5) f by (auto simp: add_stats_field jsadd_NaN)
    have "f (h2 (stats acc)) = NaN" if "f (h (stats x)) = NaN"
      using mono [OF that] add(5) f by (simp add: add_stats_field jsadd_NaN)
    with add mono old keep show ?thesis
      by (fastforce simp: nan_kept_def st2)
  next
    case seed
    let ?sr = "sr @ [(ToString (province x), defaultData x)]"
    have "\<exists>v. map_of ?sr (ToString (province loc)) = Some v \<and> f (h1 (stats v)) = NaN"
      if loc: "loc \<in> set (xs @ [x])" "county loc \<noteq> Null" "f (h (stats loc)) = NaN" for loc
    proof (cases "loc \<in> set xs")
      case True
      from old [OF True loc(2,3)] show ?thesis
        by (auto simp: map_add_Some_iff)
    next
      case False
      with loc(1) have "loc = x" by simp
      with seed(2) mono [OF loc(3)] show ?thesis
        by (simp add: map_add_Some_iff defaultData_def)
    qed
    with seed mono show ?thesis
      by (simp add: nan_kept_def st2)
  qed
qed

lemma nan_kept_forEach:
  "stat_field f \<Longrightarrow> forEach xs ([], [], h) = Inr st \<Longrightarrow> nan_kept f h xs st"
proof (induction xs arbitrary: st rule: rev_induct)
  case Nil
  then show ?case by (auto simp: nan_kept_def)
next
  case (snoc x xs)
  then show ?case
    by (auto simp: forEach_snoc_Inr intro: nan_kept_step shape_forEach)
qed

lemma set_Object_keys: "set (Object_keys obj) = fst ` set obj"
  by (auto simp: Object_keys_def Let_def)

lemma set_aggregates:
  "distinct (map fst sr) \<Longrightarrow>
     set (List.map_filter (map_of sr) (Object_keys sr)) = snd ` set sr"
  by (force simp: List.map_filter_def set_Object_keys)

section \<open>Which keys are created, in which order, and when the call raises\<close>

lemma first_seen_snoc:
  "first_seen (xs @ [x]) = (if x \<in> set xs then first_seen xs else first_seen xs @ [x])"
  by (simp add: first_seen_def)

lemma first_seen_Nil: "first_seen [] = []"
  by (simp add: first_seen_def)

lemma county_keys_snoc:
  "county_keys (xs @ [x]) =
     (if county x \<noteq> Null then county_keys xs @ [ToString (province x)] else county_keys xs)"
  by (simp add: county_keys_def)

lemma set_county_keys:
  "set (county_keys xs) = {ToString (province loc) | loc. loc \<in> set xs \<and> county loc \<noteq> Null}"
  by (auto simp: county_keys_def)

text \<open>The own properties are created in the order the keys are first met.\<close>

lemma keys_step:
  assumes "map fst sr = first_seen (county_keys xs)"
    and "forEach_body x (res, sr, h1) = Inr (res', sr', h2)"
  shows "map fst sr' = first_seen (county_keys (xs @ [x]))"
  using assms(2)
proof (cases rule: forEach_body_cases)
  case passthrough
  with assms(1) show ?thesis by (simp add: county_keys_snoc)
next
  case (add acc)
  then have "ToString (province x) \<in> fst ` set sr"
    using map_of_eq_None_iff [of sr "ToString (province x)"] by auto
  then have "ToString (province x) \<in> set (county_keys xs)"
    using assms(1) by (metis set_map set_rev set_remdups first_seen_def)
  with add assms(1) show ?thesis
    by (simp add: county_keys_snoc first_seen_snoc)
next
  case seed
  then have "ToString (province x) \<notin> fst ` set sr"
    by (simp add: map_of_eq_None_iff)
  then have "ToString (province x) \<notin> set (county_keys xs)"
    using assms(1) by (metis set_map set_rev set_remdups first_seen_def)
  with seed assms(1) show ?thesis
    by (simp add: county_keys_snoc first_seen_snoc)
qed

lemma keys_forEach:
  "forEach xs ([], [], h) = Inr (res, sr, h') \<Longrightarrow> map fst sr = first_seen (county_keys xs)"
proof (induction xs arbitrary: res sr h' rule: rev_induct)
  case Nil
  then show ?case by (simp add: county_keys_def first_seen_Nil)
next
  case (snoc x xs)
  from snoc.prems obtain res1 sr1 h1 where
    "forEach xs ([], [], h) = Inr (res1, sr1, h1)"
    "forEach_body x (res1, sr1, h1) = Inr (res, sr, h')"
    by (auto simp: forEach_snoc_Inr)
  with snoc.IH show ?case
    by (blast intro: keys_step)
qed

text \<open>The loop raises exactly when a county-level record's key is inherited.\<close>

lemma forEach_body_raises:
  assumes "fst ` set sr \<inter> set Object_prototype_names = {}"
  shows "forEach_body x (res, sr, h1) = Inl e \<longleftrightarrow>
     e = TypeError \<and> county x \<noteq> Null \<and> ToString (province x) \<in> set Object_prototype_names"
proof -
  have "map_of sr k = None" if "k \<in> set Object_prototype_names" for k
    using that assms by (auto simp: map_of_eq_None_iff)
  then show ?thesis
    by (auto simp: forEach_body_def get_property_def split: option.splits)
qed

lemma forEach_raises:
  assumes "fst ` set sr \<inter> set Object_prototype_names = {}"
  shows "(\<exists>e. forEach xs (res, sr, h1) = Inl e) \<longleftrightarrow>
     (\<exists>loc\<in>set xs. county loc \<noteq> Null \<and> ToString (province loc) \<in> set Object_prototype_names)"
  using assms
proof (induction xs arbitrary: res sr h1)
  case Nil
  then show ?case by simp
next
  case (Cons x xs)
  show ?case
  proof (cases "forEach_body x (res, sr, h1)")
    case (Inl e)
    then have "county x \<noteq> Null \<and> ToString (province x) \<in> set Object_prototype_names"
      using forEach_body_raises [OF Cons.prems, of x res h1 e] by simp
    moreover from Inl have "forEach (x # xs) (res, sr, h1) = Inl e"
      by simp
    ultimately show ?thesis
      by auto
  next
    case (Inr st)
    obtain res' sr' h2 where st: "st = (res', sr', h2)" by (cases st)
    from Inr have ok: "\<not> (county x \<noteq> Null \<and> ToString (province x) \<in> set Object_prototype_names)"
      using forEach_body_raises [OF Cons.prems, of x res h1 TypeError] by auto
    from Inr [unfolded st] have "fst ` set sr' \<inter> set Object_prototype_names = {}"
      using Cons.prems by (cases rule: forEach_body_cases) auto
    from Cons.IH [OF this, of res' h2] Inr ok show ?thesis
      by (auto simp: st)
  qed
qed

lemma forEach_only_TypeError:
  "forEach xs st = Inl e \<Longrightarrow> e = TypeError"
  by (induction xs arbitrary: st)
    (auto simp: forEach_body_def get_property_def split: sum.splits prod.splits if_splits option.splits lookup.splits)

lemma generalize_raises_iff:
  "generalizedJhudataV2 data h = Inl e \<longleftrightarrow>
     e = TypeError \<and>
     (\<exists>loc\<in>set data. county loc \<noteq> Null \<and> ToString (province loc) \<in> set Object_prototype_names)"
proof -
  have "(\<exists>e. forEach data ([], [], h) = Inl e) \<longleftrightarrow>
     (\<exists>loc\<in>set data. county loc \<noteq> Null \<and> ToString (province loc) \<in> set Object_prototype_names)"
    by (rule forEach_raises) simp
  moreover have "generalizedJhudataV2 data h = Inl e \<longleftrightarrow> forEach data ([], [], h) = Inl e" for e
    by (auto simp: generalizedJhudataV2_def split: sum.splits)
  ultimately show ?thesis
    using forEach_only_TypeError by blast
qed

lemma Object_keys_no_index:
  assumes "\<forall>k\<in>fst ` set obj. \<not> is_array_index k"
  shows "Object_keys obj = map fst obj"
proof -
  from assms have "filter is_array_index (map fst obj) = []"
    and "filter (\<lambda>k. \<not> is_array_index k) (map fst obj) = map fst obj"
    by (auto simp: filter_empty_conv filter_id_conv)
  then show ?thesis
    by (simp add: Object_keys_def)
qed

lemma map_filter_own:
  assumes "distinct (map fst obj)"
  shows "List.map_filter (map_of obj) (map fst obj) = map snd obj"
proof -
  have "filter (\<lambda>k. map_of obj k \<noteq> None) (map fst obj) = map fst obj"
    by (auto simp: filter_id_conv map_of_eq_None_iff)
  moreover have "map (the \<circ> map_of obj) (map fst obj) = map snd obj"
    using assms by (auto simp: map_of_is_SomeI)
  ultimately show ?thesis
    by (simp add: List.map_filter_def)
qed

section \<open>The sums\<close>

lemma jssum_snoc: "xs \<noteq> [] \<Longrightarrow> jssum (xs @ [x]) = jsadd (jssum xs) x"
  by (cases xs) simp_all

lemma jssum_single: "jssum [x] = x"
  by simp

lemma counts_for_snoc:
  "counts_for f h k (xs @ [x]) =
     (if county x \<noteq> Null \<and> ToString (province x) = k
      then counts_for f h k xs @ [f (h (stats x))] else counts_for f h k xs)"
  by (simp add: counts_for_def)

lemma first_for_mem: "first_for k xs loc \<Longrightarrow> loc \<in> set xs \<and> ToString (province loc) = k"
  by (auto simp: first_for_def)

lemma sums_step:
  assumes f: "stat_field f" and inv: "sums f h xs st1" and sh: "shape xs st1"
    and dist: "distinct (map stats (xs @ [x]))"
    and body: "forEach_body x st1 = Inr st2"
  shows "sums f h (xs @ [x]) st2"
proof -
  obtain res sr h1 where st1: "st1 = (res, sr, h1)" by (cases st1)
  obtain res' sr' h2 where st2: "st2 = (res', sr', h2)" by (cases st2)
  from inv have
    tot: "\<And>k v. (k, v) \<in> set sr \<Longrightarrow> f (h1 (stats v)) = jssum (counts_for f h k xs)" and
    frame: "\<And>a. a \<notin> stats ` snd ` set sr \<Longrightarrow> h1 a = h a"
    by (auto simp: sums_def st1)
  from sh have
    keys: "distinct (map fst sr)" and
    ent: "\<And>k v. (k, v) \<in> set sr \<Longrightarrow> \<exists>loc. first_for k xs loc \<and> v = defaultData loc" and
    cov: "\<And>loc. loc \<in> set xs \<Longrightarrow> county loc \<noteq> Null \<Longrightarrow> ToString (province loc) \<in> fst ` set sr"
    by (auto simp: shape_def st1)
  have src: "\<exists>loc\<in>set xs. ToString (province loc) = k \<and> stats v = stats loc"
    if "(k, v) \<in> set sr" for k v
    using ent [OF that] by (auto simp: defaultData_def dest: first_for_mem)
  from dist have fresh: "stats x \<notin> stats ` set xs" and inj: "inj_on stats (set xs)"
    by (auto simp: distinct_map)
  have fresh': "stats x \<notin> stats ` snd ` set sr"
    using src fresh by force
  from body have "forEach_body x (res, sr, h1) = Inr (res', sr', h2)"
    by (simp add: st1 st2)
  then show ?thesis
  proof (cases rule: forEach_body_cases)
    case passthrough
    with tot frame show ?thesis
      by (auto simp: sums_def st2 counts_for_snoc)
  next
    case (add acc)
    let ?kx = "ToString (province x)"
    from add(2) have acc: "(?kx, acc) \<in> set sr"
      by (rule map_of_SomeD)
    have new: "f (h2 b) = (if b = stats acc then jsadd (f (h1 (stats acc))) (f (h (stats x))) else f (h1 b))" for b
      using add(5) f frame [OF fresh'] by (simp add: add_stats_field)
    have "f (h2 (stats v)) = jssum (counts_for f h k (xs @ [x]))" if kv: "(k, v) \<in> set sr" for k v
    proof (cases "k = ?kx")
      case True
      with kv acc keys have "v = acc"
        by (metis map_of_is_SomeI option.inject)
      moreover from ent [OF acc] have "counts_for f h ?kx xs \<noteq> []"
        by (auto simp: first_for_def counts_for_def filter_empty_conv)
      ultimately show ?thesis
        using True add(1) tot [OF acc] new by (simp add: counts_for_snoc jssum_snoc)
    next
      case False
      from src [OF kv] src [OF acc] obtain lv la where
        "lv \<in> set xs" "ToString (province lv) = k" "stats v = stats lv"
        "la \<in> set xs" "ToString (province la) = ?kx" "stats acc = stats la"
        by blast
      with False inj have "stats v \<noteq> stats acc"
        by (metis inj_onD)
      with False tot [OF kv] new show ?thesis
        by (simp add: counts_for_snoc)
    qed
    moreover have "h2 a = h a" if "a \<notin> stats ` snd ` set sr" for a
    proof -
      from that acc have "a \<noteq> stats acc" by force
      with add(5) frame [OF that] show ?thesis
        by (simp add: add_stats_apply)
    qed
    ultimately show ?thesis
      using add(4) by (auto simp: sums_def st2)
  next
    case seed
    let ?kx = "ToString (province x)"
    from seed(2) have notin: "?kx \<notin> fst ` set sr"
      by (simp add: map_of_eq_None_iff)
    have old: "f (h2 (stats v)) = jssum (counts_for f h k (xs @ [x]))" if kv: "(k, v) \<in> set sr" for k v
    proof -
      from kv notin have "k \<noteq> ?kx" by force
      with tot [OF kv] seed(6) show ?thesis
        by (simp add: counts_for_snoc)
    qed
    have "\<not> (county loc \<noteq> Null \<and> ToString (province loc) = ?kx)" if "loc \<in> set xs" for loc
      using cov [OF that] notin by metis
    then have "counts_for f h ?kx xs = []"
      by (simp add: counts_for_def filter_empty_conv)
    with seed(1,6) frame [OF fresh'] have
      new: "f (h2 (stats (defaultData x))) = jssum (counts_for f h ?kx (xs @ [x]))"
      by (simp add: counts_for_snoc jssum_single defaultData_def)
    have "h2 a = h a" if "a \<notin> stats ` snd ` set sr'" for a
      using that seed(5,6) frame [of a] by auto
    with old new seed(5) show ?thesis
      by (auto simp: sums_def st2)
  qed
qed

lemma sums_forEach:
  "stat_field f \<Longrightarrow> distinct (map stats xs) \<Longrightarrow> forEach xs ([], [], h) = Inr st \<Longrightarrow> sums f h xs st"
proof (induction xs arbitrary: st rule: rev_induct)
  case Nil
  then show ?case by (auto simp: sums_def)
next
  case (snoc x xs)
  from snoc.prems(3) obtain st1 where
    run: "forEach xs ([], [], h) = Inr st1" and body: "forEach_body x st1 = Inr st"
    by (auto simp: forEach_snoc_Inr)
  from snoc.prems(2) have "distinct (map stats xs)"
    by simp
  from snoc.IH [OF snoc.prems(1) this run] shape_forEach [OF run] snoc.prems(1,2) body
  show ?case
    by (intro sums_step)
qed

lemma distinct_objects_of: "distinct (map stats (objects_of data))"
proof -
  have "stats \<circ> (\<lambda>(i, r). with_stats i r) = (fst :: addr \<times> Stats Record \<Rightarrow> addr)"
    by (auto simp: fun_eq_iff with_stats_def)
  then show ?thesis
    by (simp add: objects_of_def)
qed

lemma deref_objects_of: "map (deref (heap_of data)) (objects_of data) = data"
  by (auto simp: list_eq_iff_nth_eq objects_of_def heap_of_def deref_def with_stats_def nth_enumerate_eq)

text \<open>
  When the call returns and no two records share a \<open>stats\<close> object, every county-level
  record has its aggregated record in the output, whose counts are the sums, in input
  order, of the counts that the county-level records of the same province key had when
  the call began.
\<close>

lemma generalize_sums:
  assumes run: "generalizedJhudataV2 data h = Inr (out, h')"
    and dist: "distinct (map stats data)"
    and loc: "loc \<in> set data" "county loc \<noteq> Null"
  shows "\<exists>first. first_for (ToString (province loc)) data first \<and> defaultData first \<in> set out
     \<and> confirmed (h' (stats first)) = jssum (counts_for confirmed h (ToString (province loc)) data)
     \<and> deaths (h' (stats first)) = jssum (counts_for deaths h (ToString (province loc)) data)
     \<and> recovered (h' (stats first)) = jssum (counts_for recovered h (ToString (province loc)) data)"
proof -
  let ?k = "ToString (province loc)"
  from run obtain res sr where loop: "forEach data ([], [], h) = Inr (res, sr, h')"
    and out: "out = res @ List.map_filter (map_of sr) (Object_keys sr)"
    by (rule forEach_result)
  from shape_forEach [OF loop] have
    keys: "distinct (map fst sr)" and
    ent: "\<forall>(k, v)\<in>set sr. \<exists>loc. first_for k data loc \<and> v = defaultData loc" and
    cov: "\<forall>loc\<in>set data. county loc \<noteq> Null \<longrightarrow> ToString (province loc) \<in> fst ` set sr"
    by (simp_all add: shape_def)
  from cov loc obtain v where v: "(?k, v) \<in> set sr"
    by force
  with ent obtain first where first: "first_for ?k data first" "v = defaultData first"
    by auto
  from v keys out have "v \<in> set out"
    by (force simp: set_aggregates)
  moreover have "f (h' (stats first)) = jssum (counts_for f h ?k data)" if "stat_field f" for f
    using sums_forEach [OF that dist loop] v first(2)
    by (auto simp: sums_def defaultData_def)
  ultimately show ?thesis
    using first by (auto simp: stat_field_def)
qed

text \<open>
  When the call returns and no county-level record's province key is an array index,
  the aggregated records follow the others in the order in which their keys are first
  met.
\<close>

lemma generalize_order:
  assumes run: "generalizedJhudataV2 data h = Inr (out, h')"
    and noidx: "\<forall>loc\<in>set data. county loc \<noteq> Null \<longrightarrow> \<not> is_array_index (ToString (province loc))"
  shows "\<exists>firsts. out = map defaultData (filter (\<lambda>r. county r = Null) data) @ map defaultData firsts
     \<and> map (\<lambda>loc. ToString (province loc)) firsts = first_seen (county_keys data)
     \<and> (\<forall>loc\<in>set firsts. first_for (ToString (province loc)) data loc)"
proof -
  from run obtain res sr where loop: "forEach data ([], [], h) = Inr (res, sr, h')"
    and out: "out = res @ List.map_filter (map_of sr) (Object_keys sr)"
    by (rule forEach_result)
  from shape_forEach [OF loop] have
    res: "res = map defaultData (filter (\<lambda>r. county r = Null) data)" and
    keys: "distinct (map fst sr)" and
    ent: "\<forall>p\<in>set sr. \<exists>loc. first_for (fst p) data loc \<and> snd p = defaultData loc"
    by (auto simp: shape_def)
  from keys_forEach [OF loop] have order: "map fst sr = first_seen (county_keys data)" .
  then have "fst ` set sr = set (county_keys data)"
    by (metis first_seen_def set_map set_remdups set_rev)
  with noidx have "\<forall>k\<in>fst ` set sr. \<not> is_array_index k"
    by (auto simp: set_county_keys)
  then have "Object_keys sr = map fst sr"
    by (rule Object_keys_no_index)
  with keys out have out': "out = res @ map snd sr"
    by (simp add: map_filter_own)
  from ent obtain pick where
    pick: "\<forall>p\<in>set sr. first_for (fst p) data (pick p) \<and> snd p = defaultData (pick p)"
    by metis
  let ?firsts = "map pick sr"
  from pick have "map snd sr = map defaultData ?firsts"
    by simp
  moreover from pick have "map (\<lambda>loc. ToString (province loc)) ?firsts = map fst sr"
    by (auto dest: first_for_mem)
  moreover have "first_for (ToString (province (pick p))) data (pick p)" if "p \<in> set sr" for p
    using pick that first_for_mem [of "fst p" data "pick p"] by auto
  then have "\<forall>loc\<in>set ?firsts. first_for (ToString (province loc)) data loc"
    by auto
  ultimately show ?thesis
    using out' res order by metis
qed

section \<open>What an aggregated record is made of\<close>

lemma distinct_Object_keys: "distinct (map fst obj) \<Longrightarrow> distinct (Object_keys obj)"
  by (auto simp: Object_keys_def Let_def)

lemma map_filter_total:
  assumes "\<forall>k\<in>set ks. f k = Some (g k)"
  shows "List.map_filter f ks = map g ks"
proof -
  from assms have "filter (\<lambda>k. f k \<noteq> None) ks = ks"
    by (auto simp: filter_id_conv)
  with assms show ?thesis
    by (simp add: List.map_filter_def)
qed

text \<open>
  Claim C9. When \<open>generalizedJhudataV2\<close> returns, its array is the records without a
  county (province defaulted), in their order, followed by the aggregated records, and
  the aggregated records are the copies made of a list \<open>firsts\<close> of input records in
  which every province key of a county-level record of the input has its record, and
  has one only. Each record of \<open>firsts\<close> is the first county-level record met for its
  province key, and its copy, the aggregated record, has that record's country, county
  (which is not \<open>null\<close>: the county name is kept), updatedAt and coordinates, that
  record's very \<open>stats\<close> object, and that record's province with \<open>|| null\<close> applied.
  (The call returns unless the province of a county-level record reads as the name of
  an inherited property: \<open>generalize_raises_iff\<close>.)
\<close>

theorem aggregate_fields_from_first_county_record:
  assumes "generalizedJhudataV2 data h = Inr (out, h')"
  shows "\<exists>firsts. out = map defaultData (filter (\<lambda>r. county r = Null) data) @ map defaultData firsts
     \<and> distinct (map (\<lambda>loc. ToString (province loc)) firsts)
     \<and> (\<forall>loc\<in>set data. county loc \<noteq> Null \<longrightarrow>
          (\<exists>first\<in>set firsts. ToString (province first) = ToString (province loc)))
     \<and> (\<forall>first\<in>set firsts. \<exists>pre post. data = pre @ first # post \<and> county first \<noteq> Null \<and>
          (\<forall>x\<in>set pre. county x \<noteq> Null \<longrightarrow> ToString (province x) \<noteq> ToString (province first)) \<and>
          country (defaultData first) = country first \<and>
          county (defaultData first) = county first \<and> county (defaultData first) \<noteq> Null \<and>
          updatedAt (defaultData first) = updatedAt first \<and>
          coordinates (defaultData first) = coordinates first \<and>
          stats (defaultData first) = stats first \<and>
          province (defaultData first) = or_null (province first))"
proof -
  from assms obtain res sr where run: "forEach data ([], [], h) = Inr (res, sr, h')"
    and out: "out = res @ List.map_filter (map_of sr) (Object_keys sr)"
    by (rule forEach_result)
  let ?ks = "Object_keys sr"
  let ?key = "\<lambda>loc. ToString (province loc)"
  from shape_forEach [OF run] have
    res: "res = map defaultData (filter (\<lambda>r. county r = Null) data)" and
    dist: "distinct (map fst sr)" and
    ent: "\<forall>(k, v)\<in>set sr. \<exists>loc. first_for k data loc \<and> v = defaultData loc" and
    cov: "\<forall>loc\<in>set data. county loc \<noteq> Null \<longrightarrow> ToString (province loc) \<in> fst ` set sr"
    by (simp_all add: shape_def)
  have "\<exists>loc. first_for k data loc \<and> map_of sr k = Some (defaultData loc)" if "k \<in> set ?ks" for k
  proof -
    from that obtain v where kv: "(k, v) \<in> set sr"
      by (auto simp: set_Object_keys)
    with ent obtain loc where "first_for k data loc" "v = defaultData loc"
      by auto
    with kv dist show ?thesis
      by auto
  qed
  then obtain pick where
    pick: "\<forall>k\<in>set ?ks. first_for k data (pick k) \<and> map_of sr k = Some (defaultData (pick k))"
    by metis
  let ?firsts = "map pick ?ks"
  have key: "map ?key ?firsts = ?ks"
  proof -
    have "map (?key \<circ> pick) ?ks = map (\<lambda>k. k) ?ks"
      using pick by (intro map_cong refl) (auto dest: first_for_mem)
    then show ?thesis
      by simp
  qed
  have "List.map_filter (map_of sr) ?ks = map (defaultData \<circ> pick) ?ks"
    using pick by (intro map_filter_total) simp
  with out res have 1: "out = map defaultData (filter (\<lambda>r. county r = Null) data) @ map defaultData ?firsts"
    by simp
  have 2: "distinct (map ?key ?firsts)"
    unfolding key using dist by (rule distinct_Object_keys)
  have 3: "\<forall>loc\<in>set data. county loc \<noteq> Null \<longrightarrow> (\<exists>first\<in>set ?firsts. ?key first = ?key loc)"
  proof (intro ballI impI)
    fix loc assume "loc \<in> set data" "county loc \<noteq> Null"
    with cov have k: "?key loc \<in> set ?ks"
      by (simp add: set_Object_keys)
    with pick have "?key (pick (?key loc)) = ?key loc"
      by (auto dest: first_for_mem)
    with k show "\<exists>first\<in>set ?firsts. ?key first = ?key loc"
      by auto
  qed
  have 4: "\<forall>first\<in>set ?firsts. \<exists>pre post. data = pre @ first # post \<and> county first \<noteq> Null \<and>
          (\<forall>x\<in>set pre. county x \<noteq> Null \<longrightarrow> ToString (province x) \<noteq> ToString (province first)) \<and>
          country (defaultData first) = country first \<and>
          county (defaultData first) = county first \<and> county (defaultData first) \<noteq> Null \<and>
          updatedAt (defaultData first) = updatedAt first \<and>
          coordinates (defaultData first) = coordinates first \<and>
          stats (defaultData first) = stats first \<and>
          province (defaultData first) = or_null (province first)"
  proof
    fix first assume "first \<in> set ?firsts"
    then obtain k where "k \<in> set ?ks" "first = pick k"
      by auto
    with pick have "first_for k data first"
      by simp
    then show "\<exists>pre post. data = pre @ first # post \<and> county first \<noteq> Null \<and>
          (\<forall>x\<in>set pre. county x \<noteq> Null \<longrightarrow> ToString (province x) \<noteq> ToString (province first)) \<and>
          country (defaultData first) = country first \<and>
          county (defaultData first) = county first \<and> county (defaultData first) \<noteq> Null \<and>
          updatedAt (defaultData first) = updatedAt first \<and>
          coordinates (defaultData first) = coordinates first \<and>
          stats (defaultData first) = stats first \<and>
          province (defaultData first) = or_null (province first)"
      unfolding first_for_def defaultData_def by auto
  qed
  from 1 2 3 4 show ?thesis
    by (intro exI [of _ ?firsts] conjI)
qed

theorem aggregate_fields_from_first_county_record_witness:
  "\<exists>out h'. generalizedJhudataV2 (objects_of example_collection) (heap_of example_collection) = Inr (out, h') \<and>
     (\<exists>firsts. out = map defaultData (filter (\<lambda>r. county r = Null) (objects_of example_collection))
            @ map defaultData firsts
       \<and> distinct (map (\<lambda>loc. ToString (province loc)) firsts)
       \<and> (\<exists>first\<in>set firsts. ToString (province first) = ''California'')
       \<and> (\<forall>first\<in>set firsts. \<exists>pre post. objects_of example_collection = pre @ first # post \<and>
            county first \<noteq> Null \<and>
            (\<forall>x\<in>set pre. county x \<noteq> Null \<longrightarrow> ToString (province x) \<noteq> ToString (province first)) \<and>
            country (defaultData first) = country first \<and>
            county (defaultData first) = county first \<and> county (defaultData first) \<noteq> Null \<and>
            updatedAt (defaultData first) = updatedAt first \<and>
            coordinates (defaultData first) = coordinates first \<and>
            stats (defaultData first) = stats first \<and>
            province (defaultData first) = or_null (province first)))"
proof -
  let ?D = "objects_of example_collection"
  from example_run obtain out h' where
    run: "generalizedJhudataV2 ?D (heap_of example_collection) = Inr (out, h')"
    by blast
  have mem: "?D ! 2 \<in> set ?D" and cl: "county (?D ! 2) \<noteq> Null"
    and key: "ToString (province (?D ! 2)) = ''California''"
    by (simp_all add: example_collection_eq objects_of_def with_stats_def numeral_2_eq_2)
  from aggregate_fields_from_first_county_record [OF run] obtain firsts where
    1: "out = map defaultData (filter (\<lambda>r. county r = Null) ?D) @ map defaultData firsts" and
    2: "distinct (map (\<lambda>loc. ToString (province loc)) firsts)" and
    3: "\<forall>loc\<in>set ?D. county loc \<noteq> Null \<longrightarrow>
          (\<exists>first\<in>set firsts. ToString (province first) = ToString (province loc))" and
    4: "\<forall>first\<in>set firsts. \<exists>pre post. ?D = pre @ first # post \<and>
            county first \<noteq> Null \<and>
            (\<forall>x\<in>set pre. county x \<noteq> Null \<longrightarrow> ToString (province x) \<noteq> ToString (province first)) \<and>
            country (defaultData first) = country first \<and>
            county (defaultData first) = county first \<and> county (defaultData first) \<noteq> Null \<and>
            updatedAt (defaultData first) = updatedAt first \<and>
            coordinates (defaultData first) = coordinates first \<and>
            stats (defaultData first) = stats first \<and>
            province (defaultData first) = or_null (province first)"
    by blast
  from 3 mem cl key have 5: "\<exists>first\<in>set firsts. ToString (province first) = ''California''"
    by metis
  from run 1 2 5 4 show ?thesis
    by (intro exI conjI)
qed

section \<open>A NaN count and the aggregate\<close>

text \<open>
  When \<open>generalizedJhudataV2\<close> returns, a NaN that a county-level record holds in one
  of its counts when the call begins is, when the call returns, in the same count of the
  aggregated record of its province key: the record copied from the first county-level
  record met for that key, which is in the output (NaN plus any number is NaN, and
  \<open>+=\<close> never overwrites it). This holds whatever \<open>stats\<close> objects the records share.
\<close>

lemma nan_kept_in_aggregate:
  assumes run: "generalizedJhudataV2 data h = Inr (out, h')"
    and loc: "loc \<in> set data" "county loc \<noteq> Null"
    and f: "stat_field f" and nan: "f (h (stats loc)) = NaN"
  shows "\<exists>first. first_for (ToString (province loc)) data first
     \<and> defaultData first \<in> set (drop (length (filter (\<lambda>r. county r = Null) data)) out)
     \<and> f (h' (stats (defaultData first))) = NaN"
proof -
  from run obtain res sr where loop: "forEach data ([], [], h) = Inr (res, sr, h')"
    and out: "out = res @ List.map_filter (map_of sr) (Object_keys sr)"
    by (rule forEach_result)
  from shape_forEach [OF loop] have
    res: "res = map defaultData (filter (\<lambda>r. county r = Null) data)" and
    dist: "distinct (map fst sr)" and
    ent: "\<forall>(k, v)\<in>set sr. \<exists>loc. first_for k data loc \<and> v = defaultData loc" and
    cov: "\<forall>loc\<in>set data. county loc \<noteq> Null \<longrightarrow> ToString (province loc) \<in> fst ` set sr"
    by (simp_all add: shape_def)
  from cov loc obtain a where a: "(ToString (province loc), a) \<in> set sr"
    by force
  with dist have look: "map_of sr (ToString (province loc)) = Some a"
    by simp
  from a dist out res have "a \<in> set (drop (length (filter (\<lambda>r. county r = Null) data)) out)"
    by (force simp: set_aggregates)
  moreover from a ent obtain first where "first_for (ToString (province loc)) data first"
    "a = defaultData first"
    by auto
  moreover have "f (h' (stats a)) = NaN"
    using nan_kept_forEach [OF f loop] loc nan look
    by (auto simp: nan_kept_def)
  ultimately show ?thesis
    by blast
qed

text \<open>
  Claim C8, on the input \<open>nan_inherited\<close>: a county of California with 5 confirmed
  cases, and a county of a province named \<open>constructor\<close> whose confirmed count is NaN.
  The call raises a TypeError and returns nothing, so the output has no aggregated
  record for that province, with or without the NaN: the look-up
  \<open>statesResult[loc.province]\<close> finds the property that every object inherits. On the
  input \<open>example_collection\<close>, whose provinces are not named so, the NaN of the second
  county of California is the confirmed count of California's aggregated record.
\<close>

theorem generalize_on_nan_in_inherited_key:
  "map summary nan_inherited =
     [(Str ''California'', Str ''Orange'', Num 5), (Str ''constructor'', Str ''Kent'', NaN)]
   \<and> generalize nan_inherited = Inl TypeError
   \<and> map summary example_collection =
     [(Str ''California'', Str ''Orange'', Num 5), (Str ''Hubei'', Null, Num 7),
      (Str ''California'', Str ''Kern'', NaN)]
   \<and> map_sum id (map summary \<circ> fst) (generalize example_collection) =
       Inr [(Str ''Hubei'', Null, Num 7), (Str ''California'', Str ''Orange'', NaN)]"
  by (simp add: nan_inherited_def example_collection_def extract_ev gen_ev)

section \<open>Where the function is not a pure transform\<close>

text \<open>
  Claim C3, on the specification's own scenario. The call returns Italy with 7 and
  California with 18, and leaves the caller's first record with 18 confirmed cases
  where it had 5: the accumulator shares the \<open>stats\<close> object of the first county-level
  record, and \<open>+=\<close> writes into it. A second call on the same collection then returns
  California with 31.
\<close>

theorem generalize_twice_on_scenario:
  "map summary scenario =
     [(Str ''California'', Str ''Orange'', Num 5), (Str ''California'', Str ''Kern'', Num 10),
      (Str ''California'', Str ''Napa'', Num 3), (Str ''Italy'', Null, Num 7)]
   \<and> map_sum id (\<lambda>(out, input). (map summary out, map summary input)) (generalize scenario) =
     Inr ([(Str ''Italy'', Null, Num 7), (Str ''California'', Str ''Orange'', Num 18)],
          [(Str ''California'', Str ''Orange'', Num 18), (Str ''California'', Str ''Kern'', Num 10),
           (Str ''California'', Str ''Napa'', Num 3), (Str ''Italy'', Null, Num 7)])
   \<and> map_sum id (\<lambda>(out1, out2). (map summary out1, map summary out2)) (generalize_twice scenario) =
     Inr ([(Str ''Italy'', Null, Num 7), (Str ''California'', Str ''Orange'', Num 18)],
          [(Str ''Italy'', Null, Num 7), (Str ''California'', Str ''Orange'', Num 31)])"
  by (simp add: scenario_def extract_ev gen_ev)

section \<open>Where the plain object is not a dictionary\<close>

text \<open>
  Claim C1, on two inputs. A county-level record without a province is filed under the
  key \<open>null\<close>, the key of a province named \<open>null\<close>: the one aggregated record of
  \<open>collision\<close> has 3 confirmed cases, where the input has 1 for the absent province
  and 2 for the province \<open>null\<close>. And a province named as a property that every object
  inherits is found before any record is stored under it: on \<open>inherited\<close> the call
  raises a TypeError and returns nothing.
\<close>

theorem generalize_on_colliding_keys:
  "map summary collision = [(Null, Str ''Kent'', Num 1), (Str ''null'', Str ''Essex'', Num 2)]
   \<and> map_sum id (map summary \<circ> fst) (generalize collision) = Inr [(Null, Str ''Kent'', Num 3)]
   \<and> map summary inherited = [(Str ''constructor'', Str ''Kent'', Num 1)]
   \<and> generalize inherited = Inl TypeError"
  by (simp add: collision_def inherited_def extract_ev gen_ev)

text \<open>
  Claim C6, on the input \<open>numbered\<close>. The province \<open>B\<close> is met before the province
  \<open>1\<close>, and the aggregated record of \<open>1\<close> comes first in the output: \<open>Object.keys\<close>
  lists the keys that are array indices before the others.
\<close>

theorem generalize_on_numbered_keys:
  "map summary numbered = [(Str ''B'', Str ''Kent'', Num 1), (Str ''1'', Str ''Essex'', Num 2)]
   \<and> map_sum id (map summary \<circ> fst) (generalize numbered) =
       Inr [(Str ''1'', Str ''Essex'', Num 2), (Str ''B'', Str ''Kent'', Num 1)]"
  by (simp add: numbered_def extract_ev gen_ev)

end
